theory Spec2Isabelle
  imports Main "HOL-Library.Char_ord" "HOL-Library.List_Lexorder" "HOL-Library.Multiset"
    "HOL-Library.Product_Lexorder" "HOL-Library.Word"
begin

section \<open>JavaScript values and strings\<close>

text \<open>
  The values that travel through the client as \<open>unknown\<close>: bound parameters, record
  fields, canned rows. A number is an integer from \<open>-2^53\<close> to \<open>2^53 - 1\<close>, read as a
  signed word of 54 bits: these are numbers that JavaScript holds exactly and writes in
  plain decimal digits. A BigInt is a value of its own. An object is the list of its own
  enumerable properties in enumeration order. Values are finite trees: an object that
  contains itself is not among them.
\<close>

type_synonym jsint = "54 word"

datatype jsval =
    JUndefined
  | JNull
  | JBool bool
  | JNum jsint
  | JBigInt int
  | JStr string
  | JArr "jsval list"
  | JObj "(string \<times> jsval) list"

text \<open>What is thrown: an \<open>Error\<close> or a \<open>TypeError\<close>, with its message.\<close>

datatype error = Error string | TypeError string

text \<open>\<open>Array.prototype.join\<close> on an array of strings.\<close>

fun join :: "string \<Rightarrow> string list \<Rightarrow> string" where
  "join sep [] = []"
| "join sep [x] = x"
| "join sep (x # y # ys) = x @ sep @ join sep (y # ys)"

text \<open>
  \<open>Array.prototype.join\<close> on an array whose elements may be \<open>undefined\<close> (here
  \<open>None\<close>): an undefined element contributes the empty string.
\<close>

definition text_of :: "string option \<Rightarrow> string" where
  "text_of x = (case x of None \<Rightarrow> [] | Some s \<Rightarrow> s)"

definition joinU :: "string \<Rightarrow> string option list \<Rightarrow> string" where
  "joinU sep xs = join sep (map text_of xs)"

text \<open>Number-to-string conversion of a non-negative integer (an array length).\<close>

definition digit_char :: "nat \<Rightarrow> char" where
  "digit_char d = ''0123456789'' ! d"

fun string_of_nat :: "nat \<Rightarrow> string" where
  "string_of_nat n =
     (if n < 10 then [digit_char n]
      else string_of_nat (n div 10) @ [digit_char (n mod 10)])"

declare string_of_nat.simps [simp del]

section \<open>Parameter binder\<close>

text \<open>
  \<^verbatim>\<open>class Parameters { parameters = []; param(value) { push; return `$${length}` } }\<close>
  The mutation of the array is the returned state.
\<close>

record Parameters =
  parameters :: "jsval list"

definition new_Parameters :: Parameters where
  "new_Parameters = \<lparr>parameters = []\<rparr>"

definition param :: "jsval \<Rightarrow> Parameters \<Rightarrow> string \<times> Parameters" where
  "param v p =
     (let p' = p\<lparr>parameters := parameters p @ [v]\<rparr>
      in (CHR ''$'' # string_of_nat (length (parameters p')), p'))"

text \<open>\<open>values.map((v) => parameters.param(v))\<close>: the binder is threaded left to right.\<close>

fun params_map :: "jsval list \<Rightarrow> Parameters \<Rightarrow> string list \<times> Parameters" where
  "params_map [] p = ([], p)"
| "params_map (v # vs) p =
     (case param v p of (s, p') \<Rightarrow>
        (case params_map vs p' of (ss, p'') \<Rightarrow> (s # ss, p'')))"

section \<open>Predicates\<close>

text \<open>
  The union \<open>Predicate<T>\<close>. \<open>Unsupported\<close> stands for an object that has none of the
  five keys, which the types exclude and \<open>applyPredicate\<close> rejects at run time.
\<close>

datatype Predicate =
    Equals string jsval
  | In string "jsval list"
  | NotIn string "jsval list"
  | ArrayContains string jsval
  | TextSearch "string list" string
  | Unsupported string

text \<open>
  \<open>applyPredicate\<close>. The result is \<open>None\<close> where the source returns \<open>undefined\<close>
  (\<open>conditions[0]\<close> of an empty column list). The text carried by \<open>Unsupported\<close> is the
  JSON text of the rejected object.
\<close>

fun applyPredicate :: "Predicate \<Rightarrow> Parameters \<Rightarrow> error + (string option \<times> Parameters)" where
  "applyPredicate (Equals column v) p =
     (if v \<noteq> JNull
      then (case param v p of (s, p') \<Rightarrow> Inr (Some (column @ '' = '' @ s), p'))
      else Inr (Some (column @ '' IS NULL''), p))"
| "applyPredicate (In column vs) p =
     (case params_map vs p of (ss, p') \<Rightarrow>
        Inr (Some (column @ '' IN ('' @ join '', '' ss @ '')''), p'))"
| "applyPredicate (NotIn column vs) p =
     (case params_map vs p of (ss, p') \<Rightarrow>
        Inr (Some (column @ '' NOT IN ('' @ join '', '' ss @ '')''), p'))"
| "applyPredicate (ArrayContains column v) p =
     (case param v p of (s, p') \<Rightarrow> Inr (Some (s @ '' = ANY('' @ column @ '')''), p'))"
| "applyPredicate (TextSearch columns v) p =
     (case param (JStr (''%'' @ v @ ''%'')) p of (s, p') \<Rightarrow>
        (let conditions = map (\<lambda>column. column @ '' ILIKE '' @ s) columns
         in Inr (if length conditions > 1
                 then Some (''('' @ join '' OR '' conditions @ '')'')
                 else (case conditions of [] \<Rightarrow> None | c # _ \<Rightarrow> Some c), p')))"
| "applyPredicate (Unsupported json) p = Inl (Error (''Unsupported predicate: '' @ json))"

text \<open>\<open>where.map((predicate) => applyPredicate(predicate, parameters))\<close>; a throw ends the map.\<close>

fun predicates_map ::
  "Predicate list \<Rightarrow> Parameters \<Rightarrow> error + (string option list \<times> Parameters)" where
  "predicates_map [] p = Inr ([], p)"
| "predicates_map (x # xs) p =
     (case applyPredicate x p of
        Inl e \<Rightarrow> Inl e
      | Inr (s, p') \<Rightarrow>
          (case predicates_map xs p' of
             Inl e \<Rightarrow> Inl e
           | Inr (ss, p'') \<Rightarrow> Inr (s # ss, p'')))"

section \<open>Query compilers\<close>

record Statement =
  query :: string
  params :: "jsval list"

datatype direction = Asc | Desc

record ColumnOrder =
  column :: string
  direction :: direction

record SearchSpec =
  spec_where :: "Predicate list option"
  spec_order :: "ColumnOrder list option"
  spec_offset :: "jsint option"
  spec_limit :: "jsint option"

text \<open>\<open>where ?? []\<close>\<close>

definition or_empty :: "'a list option \<Rightarrow> 'a list" where
  "or_empty w = (case w of None \<Rightarrow> [] | Some xs \<Rightarrow> xs)"

text \<open>\<open>if (predicates.length) query += ` WHERE ${predicates.join(" AND ")}`\<close>\<close>

definition add_where :: "string option list \<Rightarrow> string \<Rightarrow> string" where
  "add_where predicates q =
     (if length predicates \<noteq> 0 then q @ '' WHERE '' @ joinU '' AND '' predicates else q)"

definition findOneQuery :: "string \<Rightarrow> Predicate list option \<Rightarrow> error + Statement" where
  "findOneQuery table w =
     (case predicates_map (or_empty w) new_Parameters of
        Inl e \<Rightarrow> Inl e
      | Inr (predicates, ps) \<Rightarrow>
          (let q = ''SELECT * FROM '' @ table;
               q = add_where predicates q;
               q = q @ '' LIMIT 1''
           in Inr \<lparr>query = q, params = parameters ps\<rparr>))"

definition findByIdQuery :: "string \<Rightarrow> string \<Rightarrow> error + Statement" where
  "findByIdQuery table ident = findOneQuery table (Some [Equals ''id'' (JStr ident)])"

text \<open>\<open>o.direction.toUpperCase()\<close> on the two directions the type allows.\<close>

fun direction_toUpperCase :: "direction \<Rightarrow> string" where
  "direction_toUpperCase Asc = ''ASC''"
| "direction_toUpperCase Desc = ''DESC''"

definition searchQuery :: "string \<Rightarrow> SearchSpec \<Rightarrow> error + Statement" where
  "searchQuery table spec =
     (case predicates_map (or_empty (spec_where spec)) new_Parameters of
        Inl e \<Rightarrow> Inl e
      | Inr (predicates, p0) \<Rightarrow>
          (let q0 = add_where predicates (''SELECT * FROM '' @ table);
               q1 = (case spec_order spec of
                       None \<Rightarrow> q0
                     | Some os \<Rightarrow>
                         if length os \<noteq> 0
                         then q0 @ '' ORDER BY '' @
                              join '', '' (map (\<lambda>o'. column o' @ '' '' @
                                                 direction_toUpperCase (direction o')) os)
                         else q0);
               (q2, p1) = (case spec_offset spec of
                             None \<Rightarrow> (q1, p0)
                           | Some off \<Rightarrow>
                               (case param (JNum off) p0 of (s, p') \<Rightarrow> (q1 @ '' OFFSET '' @ s, p')));
               (q3, p2) = (case spec_limit spec of
                             None \<Rightarrow> (q2, p1)
                           | Some lim \<Rightarrow>
                               (case param (JNum lim) p1 of (s, p') \<Rightarrow> (q2 @ '' LIMIT '' @ s, p')))
           in Inr \<lparr>query = q3, params = parameters p2\<rparr>))"

definition countQuery :: "string \<Rightarrow> Predicate list \<Rightarrow> error + Statement" where
  "countQuery table w =
     (case predicates_map w new_Parameters of
        Inl e \<Rightarrow> Inl e
      | Inr (predicates, ps) \<Rightarrow>
          Inr \<lparr>query = add_where predicates (''SELECT COUNT(*) AS cnt FROM '' @ table),
               params = parameters ps\<rparr>)"

text \<open>
  The statement \<open>save\<close> builds before it executes it. The record is the list of its
  properties as \<open>Object.keys\<close> and \<open>Object.values\<close> enumerate them. The template literal
  holds a line break and six blanks before \<open>ON CONFLICT\<close>.
\<close>

definition saveQuery :: "string \<Rightarrow> (string \<times> jsval) list \<Rightarrow> Statement" where
  "saveQuery table record =
     (case params_map (map snd record) new_Parameters of (vals, ps) \<Rightarrow>
        (let columns = map fst record
         in \<lparr>query = ''INSERT INTO '' @ table @ '' ('' @ join '', '' columns @
                      '') VALUES ('' @ join '', '' vals @ '')'' @ [CHR 0x0A] @
                      ''      ON CONFLICT (id) DO UPDATE SET '' @
                      join '', '' (map (\<lambda>col. col @ '' = EXCLUDED.'' @ col) columns),
             params = parameters ps\<rparr>))"

text \<open>
  \<open>Array.prototype.sort\<close> with a comparison function: a stable sort, here by insertion.
  When the comparison is a total preorder every stable sort returns this list; when it is
  not, the host's order is implementation-defined and still a permutation, as this one is.
  The comparison function is a parameter, since \<open>String.prototype.localeCompare\<close> is the
  host's collation.
\<close>

fun insort_by :: "('a \<Rightarrow> 'a \<Rightarrow> int) \<Rightarrow> 'a \<Rightarrow> 'a list \<Rightarrow> 'a list" where
  "insort_by cmp x [] = [x]"
| "insort_by cmp x (y # ys) = (if cmp x y \<le> 0 then x # y # ys else y # insort_by cmp x ys)"

definition sort_by :: "('a \<Rightarrow> 'a \<Rightarrow> int) \<Rightarrow> 'a list \<Rightarrow> 'a list" where
  "sort_by cmp xs = foldr (insort_by cmp) xs []"

text \<open>\<open>.map(([column, value]) => `${column} = ${parameters.param(value)}`)\<close>\<close>

fun set_entries :: "(string \<times> jsval) list \<Rightarrow> Parameters \<Rightarrow> string list \<times> Parameters" where
  "set_entries [] p = ([], p)"
| "set_entries ((col, v) # es) p =
     (case param v p of (s, p') \<Rightarrow>
        (case set_entries es p' of (ss, p'') \<Rightarrow> ((col @ '' = '' @ s) # ss, p'')))"

text \<open>
  The statement \<open>update\<close> builds before it executes it: the predicates are compiled first,
  then the sorted entries of the update map.
\<close>

definition updateQuery ::
  "(string \<Rightarrow> string \<Rightarrow> int) \<Rightarrow> string \<Rightarrow> Predicate list option \<Rightarrow> (string \<times> jsval) list
   \<Rightarrow> error + Statement" where
  "updateQuery localeCompare table w upd =
     (case predicates_map (or_empty w) new_Parameters of
        Inl e \<Rightarrow> Inl e
      | Inr (predicates, p0) \<Rightarrow>
          (case set_entries (sort_by (\<lambda>a b. localeCompare (fst a) (fst b)) upd) p0 of
             (sets, p1) \<Rightarrow>
               (let q = ''UPDATE '' @ table @ '' SET '' @ join '', '' sets;
                    q = add_where predicates q
                in Inr \<lparr>query = q, params = parameters p1\<rparr>)))"

text \<open>The statement \<open>delete\<close> builds before it executes it.\<close>

definition deleteQuery :: "string \<Rightarrow> Predicate list option \<Rightarrow> error + Statement" where
  "deleteQuery table w =
     (case predicates_map (or_empty w) new_Parameters of
        Inl e \<Rightarrow> Inl e
      | Inr (predicates, ps) \<Rightarrow>
          Inr \<lparr>query = add_where predicates (''DELETE FROM '' @ table),
               params = parameters ps\<rparr>)"

section \<open>JSON text of a value\<close>







section \<open>Stub connection provider\<close>

record QueryResult =
  rows :: "jsval list"


text \<open>
  The characters of \<open>\s\<close> (and of \<open>trim\<close>) among the first 256 code points: tab, line
  feed, vertical tab, form feed, carriage return, space, no-break space.
\<close>

definition is_space :: "char \<Rightarrow> bool" where
  "is_space c \<longleftrightarrow> c \<in> {CHR 0x09, CHR 0x0A, CHR 0x0B, CHR 0x0C, CHR 0x0D, CHR 0x20, CHR 0xA0}"





datatype effect =
    Debug string "jsval list option"
  | Executed string "jsval list option"
  | Warned string "jsval list option"
  | EmittedSaved "(string \<times> jsval) list"
  | EmittedUpdated "Predicate list option" "(string \<times> jsval) list"
  | EmittedDeleted "Predicate list option"



section \<open>Database client\<close>

text \<open>
  The client owns a connection provider, whose \<open>query\<close> either fails or returns rows, and
  an optional logger. Every operation returns the effects it had, in order, and its outcome.
\<close>

record DatabaseClient =
  pool :: "string \<Rightarrow> jsval list option \<Rightarrow> error + QueryResult"
  logger :: bool

text \<open>The private \<open>#query\<close>.\<close>

definition client_query ::
  "DatabaseClient \<Rightarrow> string \<Rightarrow> jsval list option \<Rightarrow> effect list \<times> (error + QueryResult)" where
  "client_query c q ps =
     ((if logger c then [Debug q ps] else []) @ [Executed q ps], pool c q ps)"

definition save ::
  "DatabaseClient \<Rightarrow> string \<Rightarrow> (string \<times> jsval) list \<Rightarrow> effect list \<times> (error + unit)" where
  "save c table record =
     (let st = saveQuery table record
      in case client_query c (query st) (Some (params st)) of
           (fx, Inl e) \<Rightarrow> (fx, Inl e)
         | (fx, Inr r) \<Rightarrow> (fx @ [EmittedSaved record], Inr ()))"

definition update ::
  "(string \<Rightarrow> string \<Rightarrow> int) \<Rightarrow> DatabaseClient \<Rightarrow> string \<Rightarrow> Predicate list option
   \<Rightarrow> (string \<times> jsval) list \<Rightarrow> effect list \<times> (error + unit)" where
  "update localeCompare c table w upd =
     (case updateQuery localeCompare table w upd of
        Inl e \<Rightarrow> ([], Inl e)
      | Inr st \<Rightarrow>
          (case client_query c (query st) (Some (params st)) of
             (fx, Inl e) \<Rightarrow> (fx, Inl e)
           | (fx, Inr r) \<Rightarrow> (fx @ [EmittedUpdated w upd], Inr ())))"

definition delete ::
  "DatabaseClient \<Rightarrow> string \<Rightarrow> Predicate list option \<Rightarrow> effect list \<times> (error + unit)" where
  "delete c table w =
     (case deleteQuery table w of
        Inl e \<Rightarrow> ([], Inl e)
      | Inr st \<Rightarrow>
          (case client_query c (query st) (Some (params st)) of
             (fx, Inl e) \<Rightarrow> (fx, Inl e)
           | (fx, Inr r) \<Rightarrow> (fx @ [EmittedDeleted w], Inr ())))"

section \<open>Placeholder tokens of a SQL text\<close>

text \<open>
  A placeholder token is a dollar sign followed by a non-empty maximal run of decimal
  digits. \<open>placeholders\<close> lists the indices of the tokens of a text from left to right.
\<close>

definition is_digit :: "char \<Rightarrow> bool" where
  "is_digit c \<longleftrightarrow> c \<in> set ''0123456789''"

definition nat_of_digits :: "string \<Rightarrow> nat" where
  "nat_of_digits ds = foldl (\<lambda>a d. 10 * a + (of_char d - 48)) 0 ds"

fun placeholders :: "string \<Rightarrow> nat list" where
  "placeholders [] = []"
| "placeholders (c # cs) =
     (if c = CHR ''$'' \<and> takeWhile is_digit cs \<noteq> []
      then nat_of_digits (takeWhile is_digit cs) # placeholders cs
      else placeholders cs)"

text \<open>A name that holds no dollar sign cannot contribute a placeholder token.\<close>

definition no_dollar :: "string \<Rightarrow> bool" where
  "no_dollar s \<longleftrightarrow> CHR ''$'' \<notin> set s"

text \<open>A text that does not start with a digit: it ends the token that precedes it.\<close>

definition nd :: "string \<Rightarrow> bool" where
  "nd r \<longleftrightarrow> (case r of [] \<Rightarrow> True | c # _ \<Rightarrow> \<not> is_digit c)"

section \<open>What a predicate names and binds\<close>

text \<open>The column names that a predicate writes into its fragment.\<close>

fun predicate_columns :: "Predicate \<Rightarrow> string list" where
  "predicate_columns (Equals col v) = [col]"
| "predicate_columns (In col vs) = [col]"
| "predicate_columns (NotIn col vs) = [col]"
| "predicate_columns (ArrayContains col v) = [col]"
| "predicate_columns (TextSearch cols v) = cols"
| "predicate_columns (Unsupported json) = []"

text \<open>The values that compiling a predicate appends to the parameter list, in order.\<close>

fun predicate_values :: "Predicate \<Rightarrow> jsval list" where
  "predicate_values (Equals col v) = (if v \<noteq> JNull then [v] else [])"
| "predicate_values (In col vs) = vs"
| "predicate_values (NotIn col vs) = vs"
| "predicate_values (ArrayContains col v) = [v]"
| "predicate_values (TextSearch cols v) = [JStr (''%'' @ v @ ''%'')]"
| "predicate_values (Unsupported json) = []"

text \<open>
  The indices of the placeholder tokens of a predicate's fragment, from left to right,
  when the parameter list holds \<open>n\<close> values before the predicate is compiled.
\<close>

fun predicate_placeholders :: "Predicate \<Rightarrow> nat \<Rightarrow> nat list" where
  "predicate_placeholders (Equals col v) n = (if v \<noteq> JNull then [Suc n] else [])"
| "predicate_placeholders (In col vs) n = [Suc n ..< Suc (n + length vs)]"
| "predicate_placeholders (NotIn col vs) n = [Suc n ..< Suc (n + length vs)]"
| "predicate_placeholders (ArrayContains col v) n = [Suc n]"
| "predicate_placeholders (TextSearch cols v) n = replicate (length cols) (Suc n)"
| "predicate_placeholders (Unsupported json) n = []"

fun predicates_placeholders :: "Predicate list \<Rightarrow> nat \<Rightarrow> nat list" where
  "predicates_placeholders [] n = []"
| "predicates_placeholders (x # xs) n =
     predicate_placeholders x n @ predicates_placeholders xs (n + length (predicate_values x))"

text \<open>The column names of a predicate hold no dollar sign.\<close>

definition columns_ok :: "Predicate \<Rightarrow> bool" where
  "columns_ok x = list_all no_dollar (predicate_columns x)"

text \<open>A predicate of one of the five kinds of the union.\<close>

definition supported :: "Predicate \<Rightarrow> bool" where
  "supported x = (case x of Unsupported json \<Rightarrow> False | _ \<Rightarrow> True)"

section \<open>Statements whose tokens follow the binds\<close>

text \<open>Every placeholder token of the text names an entry of the parameter list.\<close>

definition tokens_bound :: "Statement \<Rightarrow> bool" where
  "tokens_bound st \<longleftrightarrow>
     list_all (\<lambda>k. 1 \<le> k \<and> k \<le> length (params st)) (placeholders (query st))"

text \<open>... and the tokens appear, from left to right, in the order of their binds.\<close>

definition tokens_in_bind_order :: "Statement \<Rightarrow> bool" where
  "tokens_in_bind_order st \<longleftrightarrow> tokens_bound st \<and> sorted (placeholders (query st))"

section \<open>Normalized text, in words\<close>

text \<open>
  The reading of the specification: a normalized text is the words of the text (its maximal
  runs of characters that are not white space) with one blank between neighbours.
  \<open>ws_words\<close> lists the words; it is compared with \<open>normalizeQuery\<close> below.
\<close>

function ws_words :: "string \<Rightarrow> string list" where
  "ws_words s =
     (case dropWhile is_space s of
        [] \<Rightarrow> []
      | c # cs \<Rightarrow>
          takeWhile (\<lambda>x. \<not> is_space x) (c # cs) #
          ws_words (dropWhile (\<lambda>x. \<not> is_space x) (c # cs)))"
  by pat_completeness auto
termination
proof (relation "measure length")
  show "wf (measure length)" by simp
next
  fix s :: string and c cs
  assume d: "dropWhile is_space s = c # cs"
  then have "\<not> is_space c"
    by (metis hd_dropWhile list.distinct(1) list.sel(1))
  then have "dropWhile (\<lambda>x. \<not> is_space x) (c # cs) = dropWhile (\<lambda>x. \<not> is_space x) cs"
    by simp
  moreover have "length (dropWhile (\<lambda>x. \<not> is_space x) cs) \<le> length cs"
    by (rule length_dropWhile_le)
  moreover have "length (c # cs) \<le> length s"
    using length_dropWhile_le [of is_space s] d by simp
  ultimately show "(dropWhile (\<lambda>x. \<not> is_space x) (c # cs), s) \<in> measure length"
    by simp
qed

declare ws_words.simps [simp del]

text \<open>White space taken off the end of a text.\<close>

definition rtrim :: "string \<Rightarrow> string" where
  "rtrim s = rev (dropWhile is_space (rev s))"

section \<open>Matching an entry of the registry\<close>







section \<open>Equality of values\<close>

text \<open>
  The reading of the specification, value-wise structural comparison: atoms are equal when
  they are the same, arrays when they are equal element by element, objects (whose keys
  are distinct) when they have the same properties with equal values, in whatever order
  they are enumerated. \<open>canonical\<close> lists the properties of every object by key.
\<close>

fun canonical :: "jsval \<Rightarrow> jsval"
  and canonical_elements :: "jsval list \<Rightarrow> jsval list"
  and canonical_properties :: "(string \<times> jsval) list \<Rightarrow> (string \<times> jsval) list" where
  "canonical (JArr xs) = JArr (canonical_elements xs)"
| "canonical (JObj kvs) = JObj (sort_key fst (canonical_properties kvs))"
| "canonical v = v"
| "canonical_elements [] = []"
| "canonical_elements (x # xs) = canonical x # canonical_elements xs"
| "canonical_properties [] = []"
| "canonical_properties ((k, v) # kvs) = (k, canonical v) # canonical_properties kvs"



section \<open>The host's comparison of names\<close>

text \<open>
  \<open>String.prototype.localeCompare\<close> is not code of the repository: it is the collation of
  the host's default locale. What is modelled here is the root collation of Unicode (the
  collation of \<open>en-US\<close>, among others; a locale with a tailoring of its own, as Danish
  has, is not covered), on the characters of identifiers (letters, digits, underscore) and
  on the control characters it ignores (\<open>U+0000\<close> to \<open>U+0008\<close>, \<open>U+000E\<close> to \<open>U+001F\<close>, \<open>U+007F\<close>).
  An ignored character contributes nothing. Every other character has a primary weight
  (underscore, then the digits, then the letters, a letter and its capital alike) and a
  tertiary weight (a capital after everything else). Two names are compared by the lists
  of their primary weights, in dictionary order, and when these are equal by the lists of
  their tertiary weights.
\<close>

definition ignorable :: "char \<Rightarrow> bool" where
  "ignorable c \<longleftrightarrow>
     (of_char c :: nat) < 9 \<or> (14 \<le> (of_char c :: nat) \<and> (of_char c :: nat) < 32) \<or>
     (of_char c :: nat) = 127"

definition is_lower :: "char \<Rightarrow> bool" where
  "is_lower c \<longleftrightarrow> 97 \<le> (of_char c :: nat) \<and> (of_char c :: nat) \<le> 122"

definition is_upper :: "char \<Rightarrow> bool" where
  "is_upper c \<longleftrightarrow> 65 \<le> (of_char c :: nat) \<and> (of_char c :: nat) \<le> 90"

definition is_decimal :: "char \<Rightarrow> bool" where
  "is_decimal c \<longleftrightarrow> 48 \<le> (of_char c :: nat) \<and> (of_char c :: nat) \<le> 57"

definition identifier_char :: "char \<Rightarrow> bool" where
  "identifier_char c \<longleftrightarrow> is_lower c \<or> is_upper c \<or> is_decimal c \<or> c = CHR ''_''"

text \<open>The characters the model covers, and the names made of them.\<close>

definition collated :: "char \<Rightarrow> bool" where
  "collated c \<longleftrightarrow> identifier_char c \<or> ignorable c"

definition collated_name :: "string \<Rightarrow> bool" where
  "collated_name s = list_all collated s"

definition identifier_name :: "string \<Rightarrow> bool" where
  "identifier_name s = list_all identifier_char s"

text \<open>Names of lowercase letters and underscores.\<close>

definition snake_name :: "string \<Rightarrow> bool" where
  "snake_name s = list_all (\<lambda>c. is_lower c \<or> c = CHR ''_'') s"

text \<open>
  The weights. Outside the characters of the model the primary weight is a placeholder
  (after the letters, by code); no statement below is about such a character.
\<close>

definition primary :: "char \<Rightarrow> nat" where
  "primary c =
     (if c = CHR ''_'' then 0
      else if is_decimal c then 1 + ((of_char c :: nat) - 48)
      else if is_lower c then 11 + ((of_char c :: nat) - 97)
      else if is_upper c then 11 + ((of_char c :: nat) - 65)
      else 37 + (of_char c :: nat))"

definition tertiary :: "char \<Rightarrow> nat" where
  "tertiary c = (if is_upper c then 1 else 0)"

text \<open>
  The key of a name: its primary weights and its tertiary weights. Keys are ordered as
  pairs, the first component first, and each list in dictionary order.
\<close>

definition collation_key :: "string \<Rightarrow> nat list \<times> nat list" where
  "collation_key s =
     (map primary (filter (\<lambda>c. \<not> ignorable c) s),
      map tertiary (filter (\<lambda>c. \<not> ignorable c) s))"

text \<open>
  What is assumed of the host's \<open>localeCompare\<close>: it is a total preorder of all strings,
  and on the names of the model it compares the keys.
\<close>

definition host_collation :: "(string \<Rightarrow> string \<Rightarrow> int) \<Rightarrow> bool" where
  "host_collation cmp \<longleftrightarrow>
     (\<forall>a b. cmp a b \<le> 0 \<or> cmp b a \<le> 0) \<and>
     (\<forall>a b c. cmp a b \<le> 0 \<longrightarrow> cmp b c \<le> 0 \<longrightarrow> cmp a c \<le> 0) \<and>
     (\<forall>a b. collated_name a \<longrightarrow> collated_name b \<longrightarrow>
        (cmp a b < 0 \<longleftrightarrow> collation_key a < collation_key b) \<and>
        (cmp a b = 0 \<longleftrightarrow> collation_key a = collation_key b))"

text \<open>The comparison by keys: a host's \<open>localeCompare\<close> on the names of the model.\<close>

definition rootCompare :: "string \<Rightarrow> string \<Rightarrow> int" where
  "rootCompare a b =
     (if collation_key a < collation_key b then - 1
      else if collation_key b < collation_key a then 1 else 0)"

section \<open>A comparison function for the examples\<close>

text \<open>
  The comparison by code units. On names of lowercase letters and underscores it is the
  comparison by keys above; the examples that are not about the order of the SET clause
  take such names and are evaluated with it.
\<close>

definition codeUnitCompare :: "string \<Rightarrow> string \<Rightarrow> int" where
  "codeUnitCompare a b = (if a < b then - 1 else if b < a then 1 else 0)"

section \<open>The binder and decimal numerals\<close>

lemma param_eq:
  "param v p =
     (CHR ''$'' # string_of_nat (Suc (length (parameters p))),
      \<lparr>parameters = parameters p @ [v]\<rparr>)"
  by (simp add: param_def Let_def)

lemma params_map_eq:
  "params_map vs p =
     (map (\<lambda>i. CHR ''$'' # string_of_nat i)
        [Suc (length (parameters p)) ..< Suc (length (parameters p) + length vs)],
      \<lparr>parameters = parameters p @ vs\<rparr>)"
proof (induction vs arbitrary: p)
  case Nil
  show ?case by simp
next
  case (Cons v vs)
  show ?case
    by (simp add: param_eq Cons.IH upt_conv_Cons del: upt_Suc)
qed

lemma digit_char_is_digit: "d < 10 \<Longrightarrow> is_digit (digit_char d)"
  by (simp add: is_digit_def digit_char_def nth_Cons')

lemma string_of_nat_digits: "c \<in> set (string_of_nat n) \<Longrightarrow> is_digit c"
proof (induction n arbitrary: c rule: string_of_nat.induct)
  case (1 n)
  then show ?case
    by (subst (asm) (2) string_of_nat.simps) (auto simp: digit_char_is_digit split: if_splits)
qed

lemma string_of_nat_nonempty: "string_of_nat n \<noteq> []"
  by (subst string_of_nat.simps) simp

lemma digit_char_val: "d < 10 \<Longrightarrow> of_char (digit_char d) - 48 = d"
proof -
  assume "d < 10"
  then have "d \<in> {0, 1, 2, 3, 4, 5, 6, 7, 8, 9}" by auto
  then show ?thesis
    by (auto simp: digit_char_def)
qed

lemma nat_of_digits_snoc:
  "nat_of_digits (ds @ [d]) = 10 * nat_of_digits ds + (of_char d - 48)"
  by (simp add: nat_of_digits_def)

lemma nat_of_digits_string_of_nat: "nat_of_digits (string_of_nat n) = n"
proof (induction n rule: string_of_nat.induct)
  case (1 n)
  show ?case
  proof (cases "n < 10")
    case True
    then show ?thesis
      by (subst string_of_nat.simps) (simp add: nat_of_digits_def digit_char_val)
  next
    case False
    then show ?thesis
      using 1
      by (subst string_of_nat.simps) (simp add: nat_of_digits_snoc digit_char_val)
  qed
qed

section \<open>Scanning for placeholder tokens\<close>

lemma ph_no_dollar_append: "no_dollar s \<Longrightarrow> placeholders (s @ r) = placeholders r"
  by (induction s) (auto simp: no_dollar_def)

lemma ph_no_dollar: "no_dollar s \<Longrightarrow> placeholders s = []"
  using ph_no_dollar_append [of s "[]"] by simp

lemma is_digit_not_dollar: "is_digit c \<Longrightarrow> c \<noteq> CHR ''$''"
  by (auto simp: is_digit_def)

lemma takeWhile_digits_nd:
  "\<forall>c \<in> set ds. is_digit c \<Longrightarrow> nd r \<Longrightarrow> takeWhile is_digit (ds @ r) = ds"
  by (cases r) (auto simp: nd_def takeWhile_append2 intro: takeWhile_eq_all_conv[THEN iffD2])

lemma takeWhile_append_nd:
  "nd r \<Longrightarrow> takeWhile is_digit (a @ r) = takeWhile is_digit a"
  by (induction a) (auto simp: nd_def split: list.splits)

lemma ph_append: "nd r \<Longrightarrow> placeholders (a @ r) = placeholders a @ placeholders r"
  by (induction a) (auto simp: takeWhile_append_nd)

lemma ph_digits: "\<forall>c \<in> set ds. is_digit c \<Longrightarrow> placeholders (ds @ r) = placeholders r"
  by (rule ph_no_dollar_append) (auto simp: no_dollar_def dest: is_digit_not_dollar)

lemma ph_token:
  assumes "nd r"
  shows "placeholders (CHR ''$'' # string_of_nat n @ r) = n # placeholders r"
proof -
  have d: "\<forall>c \<in> set (string_of_nat n). is_digit c"
    by (simp add: string_of_nat_digits)
  have t: "takeWhile is_digit (string_of_nat n @ r) = string_of_nat n"
    using d assms by (rule takeWhile_digits_nd)
  show ?thesis
    unfolding placeholders.simps t
    by (simp add: string_of_nat_nonempty nat_of_digits_string_of_nat ph_digits [OF d])
qed

section \<open>Single predicates\<close>

text \<open>
  C4. For every column: \<open>Equals(col, null)\<close> compiles to \<open>col IS NULL\<close> and leaves the
  parameter list as it was; \<open>Equals(col, v)\<close> with \<open>v\<close> not null compiles to \<open>col = $k\<close>,
  where \<open>$k\<close> is the token that binding \<open>v\<close> returns, and the parameter list grows by
  exactly \<open>v\<close>.
\<close>

theorem equals_null_or_bound:
  "applyPredicate (Equals col JNull) p = Inr (Some (col @ '' IS NULL''), p) \<and>
   (v \<noteq> JNull \<longrightarrow>
      applyPredicate (Equals col v) p =
        Inr (Some (col @ '' = '' @ fst (param v p)), snd (param v p)) \<and>
      fst (param v p) = ''$'' @ string_of_nat (length (parameters p) + 1) \<and>
      parameters (snd (param v p)) = parameters p @ [v])"
  by (simp add: param_eq)

theorem equals_null_or_bound_witness:
  "JStr ''Alice'' \<noteq> JNull \<and>
   applyPredicate (Equals ''name'' JNull) new_Parameters =
     Inr (Some ''name IS NULL'', \<lparr>parameters = []\<rparr>) \<and>
   applyPredicate (Equals ''name'' (JStr ''Alice'')) new_Parameters =
     Inr (Some ''name = $1'', \<lparr>parameters = [JStr ''Alice'']\<rparr>)"
  using equals_null_or_bound [of "''name''" new_Parameters "JStr ''Alice''"]
  by (simp add: param_eq new_Parameters_def string_of_nat.simps digit_char_def)

text \<open>
  C7. For every column, \<open>In(col, [])\<close> compiles to \<open>col IN ()\<close> and \<open>NotIn(col, [])\<close> to
  \<open>col NOT IN ()\<close>, and neither binds a parameter: the empty list is not left out, so a
  search whose only predicate is \<open>In(col, [])\<close> has the WHERE clause \<open>col IN ()\<close>.
\<close>

theorem in_empty_list_kept:
  "applyPredicate (In col []) p = Inr (Some (col @ '' IN ()''), p) \<and>
   applyPredicate (NotIn col []) p = Inr (Some (col @ '' NOT IN ()''), p) \<and>
   searchQuery table \<lparr>spec_where = Some [In col []], spec_order = None,
                       spec_offset = None, spec_limit = None\<rparr> =
     Inr \<lparr>query = ''SELECT * FROM '' @ table @ '' WHERE '' @ col @ '' IN ()'', params = []\<rparr> \<and>
   searchQuery table \<lparr>spec_where = Some [NotIn col []], spec_order = None,
                       spec_offset = None, spec_limit = None\<rparr> =
     Inr \<lparr>query = ''SELECT * FROM '' @ table @ '' WHERE '' @ col @ '' NOT IN ()'', params = []\<rparr>"
  by (simp add: searchQuery_def or_empty_def new_Parameters_def add_where_def joinU_def text_of_def)

theorem in_empty_list_kept_witness:
  "searchQuery ''t'' \<lparr>spec_where = Some [In ''status'' []], spec_order = None,
                       spec_offset = None, spec_limit = None\<rparr> =
     Inr \<lparr>query = ''SELECT * FROM t WHERE status IN ()'', params = []\<rparr>"
  using in_empty_list_kept [of "''status''" new_Parameters "''t''"]
  by simp

text \<open>
  C3. For every non-empty column list and every string \<open>v\<close>, \<open>TextSearch(cols, v)\<close> binds
  once, the string \<open>%v%\<close>, and compiles to one \<open>col ILIKE $k\<close> per column, all with the one
  token \<open>$k\<close> that the bind returned, joined by \<open>OR\<close> and put in parentheses exactly when
  there is more than one column.
\<close>

theorem textSearch_one_bind:
  "cols \<noteq> [] \<Longrightarrow>
   applyPredicate (TextSearch cols v) p =
     Inr (Some (let k = fst (param (JStr (''%'' @ v @ ''%'')) p);
                    branches = join '' OR '' (map (\<lambda>col. col @ '' ILIKE '' @ k) cols)
                in if length cols > 1 then ''('' @ branches @ '')'' else branches),
          snd (param (JStr (''%'' @ v @ ''%'')) p)) \<and>
   fst (param (JStr (''%'' @ v @ ''%'')) p) = ''$'' @ string_of_nat (length (parameters p) + 1) \<and>
   parameters (snd (param (JStr (''%'' @ v @ ''%'')) p)) =
     parameters p @ [JStr (''%'' @ v @ ''%'')]"
  by (cases cols; cases "tl cols") (auto simp: param_eq Let_def)

theorem textSearch_one_bind_witness:
  "[''a'', ''b''] \<noteq> [] \<and>
   applyPredicate (TextSearch [''a'', ''b''] ''x'') \<lparr>parameters = [JNum 7]\<rparr> =
     Inr (Some ''(a ILIKE $2 OR b ILIKE $2)'', \<lparr>parameters = [JNum 7, JStr ''%x%'']\<rparr>)"
  using textSearch_one_bind [of "[''a'', ''b'']" "''x''" "\<lparr>parameters = [JNum 7]\<rparr>"]
  by (simp add: param_eq string_of_nat.simps digit_char_def)

section \<open>Statements\<close>

lemma saveQuery_eq:
  "saveQuery table record =
     \<lparr>query = ''INSERT INTO '' @ table @ '' ('' @ join '', '' (map fst record) @
              '') VALUES ('' @
              join '', '' (map (\<lambda>i. ''$'' @ string_of_nat i) [1 ..< Suc (length record)]) @
              '')'' @ [CHR 0x0A] @ ''      ON CONFLICT (id) DO UPDATE SET '' @
              join '', '' (map (\<lambda>col. col @ '' = EXCLUDED.'' @ col) (map fst record)),
      params = map snd record\<rparr>"
  by (simp add: saveQuery_def params_map_eq new_Parameters_def)

text \<open>
  C6. For every table and record, \<open>save\<close> compiles an INSERT that lists the record's keys
  in the record's own order, binds the record's values to \<open>$1\<close>, \<open>$2\<close>, ... in the same
  order, and ends with \<open>ON CONFLICT (id) DO UPDATE SET\<close> followed by one
  \<open>col = EXCLUDED.col\<close> for every column of the record.
\<close>

theorem save_is_upsert:
  "saveQuery table record =
     \<lparr>query = ''INSERT INTO '' @ table @ '' ('' @ join '', '' (map fst record) @
              '') VALUES ('' @
              join '', '' (map (\<lambda>i. ''$'' @ string_of_nat i) [1 ..< Suc (length record)]) @
              '')'' @ [CHR 0x0A] @ ''      ON CONFLICT (id) DO UPDATE SET '' @
              join '', '' (map (\<lambda>col. col @ '' = EXCLUDED.'' @ col) (map fst record)),
      params = map snd record\<rparr>"
  by (rule saveQuery_eq)

theorem save_is_upsert_witness:
  "saveQuery ''users'' [(''id'', JStr ''1''), (''name'', JStr ''Alice'')] =
     \<lparr>query = ''INSERT INTO users (id, name) VALUES ($1, $2)'' @ [CHR 0x0A] @
              ''      ON CONFLICT (id) DO UPDATE SET id = EXCLUDED.id, name = EXCLUDED.name'',
      params = [JStr ''1'', JStr ''Alice'']\<rparr>"
  using save_is_upsert [of "''users''" "[(''id'', JStr ''1''), (''name'', JStr ''Alice'')]"]
  by (simp add: string_of_nat.simps digit_char_def upt_conv_Cons del: upt_Suc)

lemma or_empty_simps [simp]: "or_empty None = []" "or_empty (Some xs) = xs"
  by (simp_all add: or_empty_def)

lemma applyPredicate_binds:
  "applyPredicate x p = Inr (f, p') \<Longrightarrow> p' = \<lparr>parameters = parameters p @ predicate_values x\<rparr>"
  by (cases x) (auto simp: param_eq params_map_eq Let_def split: if_splits)

lemma predicates_map_binds:
  "predicates_map xs p = Inr (fs, p') \<Longrightarrow>
   p' = \<lparr>parameters = parameters p @ concat (map predicate_values xs)\<rparr> \<and> length fs = length xs"
proof (induction xs arbitrary: p fs p')
  case Nil
  then show ?case by simp
next
  case (Cons x xs)
  from Cons.prems obtain f p1 fs' where
    a: "applyPredicate x p = Inr (f, p1)" and
    m: "predicates_map xs p1 = Inr (fs', p')" and
    fs: "fs = f # fs'"
    by (auto split: sum.splits prod.splits)
  from applyPredicate_binds [OF a] Cons.IH [OF m] fs show ?case by simp
qed

lemma applyPredicate_total: "supported x \<Longrightarrow> \<exists>f p'. applyPredicate x p = Inr (f, p')"
  by (cases x) (auto simp: supported_def param_eq params_map_eq Let_def)

lemma predicates_map_total:
  "list_all supported xs \<Longrightarrow> \<exists>fs p'. predicates_map xs p = Inr (fs, p')"
proof (induction xs arbitrary: p)
  case Nil
  show ?case by simp
next
  case (Cons x xs)
  then have "supported x" and xs: "list_all supported xs" by simp_all
  from applyPredicate_total [OF this(1)] obtain f p1 where
    a: "applyPredicate x p = Inr (f, p1)" by blast
  from Cons.IH [OF xs] obtain fs p' where "predicates_map xs p1 = Inr (fs, p')" by blast
  with a show ?case by simp
qed

lemma searchQuery_total:
  assumes "list_all supported (or_empty (spec_where spec))"
  shows "\<exists>st. searchQuery table spec = Inr st"
proof -
  from predicates_map_total [OF assms] obtain fs p' where
    "predicates_map (or_empty (spec_where spec)) new_Parameters = Inr (fs, p')" by blast
  then show ?thesis
    by (simp add: searchQuery_def Let_def split: prod.splits)
qed

lemma searchQuery_shape:
  assumes "searchQuery table spec = Inr st"
  shows "\<exists>fs. predicates_map (or_empty (spec_where spec)) new_Parameters =
            Inr (fs, \<lparr>parameters = concat (map predicate_values (or_empty (spec_where spec)))\<rparr>) \<and>
     (let bound = concat (map predicate_values (or_empty (spec_where spec)));
          m = length bound
      in query st =
           ''SELECT * FROM '' @ table @
           (if or_empty (spec_where spec) = [] then []
            else '' WHERE '' @ joinU '' AND '' fs) @
           (if or_empty (spec_order spec) = [] then []
            else '' ORDER BY '' @
                 join '', '' (map (\<lambda>o'. column o' @ '' '' @ direction_toUpperCase (direction o'))
                                (or_empty (spec_order spec)))) @
           (case spec_offset spec of None \<Rightarrow> []
            | Some off \<Rightarrow> '' OFFSET $'' @ string_of_nat (Suc m)) @
           (case spec_limit spec of None \<Rightarrow> []
            | Some lim \<Rightarrow> '' LIMIT $'' @
                string_of_nat (case spec_offset spec of None \<Rightarrow> Suc m | Some off \<Rightarrow> Suc (Suc m))) \<and>
         params st =
           bound @
           (case spec_offset spec of None \<Rightarrow> [] | Some off \<Rightarrow> [JNum off]) @
           (case spec_limit spec of None \<Rightarrow> [] | Some lim \<Rightarrow> [JNum lim]))"
proof -
  let ?ws = "or_empty (spec_where spec)"
  let ?bound = "concat (map predicate_values ?ws)"
  from assms obtain fs p0 where
    m: "predicates_map ?ws new_Parameters = Inr (fs, p0)"
    by (auto simp: searchQuery_def split: sum.splits prod.splits)
  from predicates_map_binds [OF m] have
    p0: "p0 = \<lparr>parameters = concat (map predicate_values ?ws)\<rparr>"
    and len: "length fs = length ?ws"
    by (simp_all add: new_Parameters_def)
  have e: "(fs = []) = (?ws = [])"
    using len by (metis length_0_conv)
  from assms have st: "query st = add_where fs (''SELECT * FROM '' @ table) @
           (if or_empty (spec_order spec) = [] then []
            else '' ORDER BY '' @
                 join '', '' (map (\<lambda>o'. column o' @ '' '' @ direction_toUpperCase (direction o'))
                                (or_empty (spec_order spec)))) @
           (case spec_offset spec of None \<Rightarrow> []
            | Some off \<Rightarrow> '' OFFSET $'' @ string_of_nat (Suc (length ?bound))) @
           (case spec_limit spec of None \<Rightarrow> []
            | Some lim \<Rightarrow> '' LIMIT $'' @
                string_of_nat (case spec_offset spec of None \<Rightarrow> Suc (length ?bound)
                               | Some off \<Rightarrow> Suc (Suc (length ?bound))))"
    and ps: "params st = ?bound @
           (case spec_offset spec of None \<Rightarrow> [] | Some off \<Rightarrow> [JNum off]) @
           (case spec_limit spec of None \<Rightarrow> [] | Some lim \<Rightarrow> [JNum lim])"
    unfolding searchQuery_def m p0
    by (auto simp: Let_def param_eq split: option.splits)
  have w: "add_where fs q = q @ (if ?ws = [] then [] else '' WHERE '' @ joinU '' AND '' fs)" for q
    by (simp add: add_where_def e)
  show ?thesis
    using m st ps unfolding p0 w by (simp add: Let_def)
qed

text \<open>
  C10. Every search specification whose predicates are of the five kinds compiles, and for
  every search specification that compiles: the statement is \<open>SELECT * FROM\<close> the
  table, then the WHERE clause exactly when the where list is present and not empty, then
  the ORDER BY clause exactly when the order list is present and not empty, then
  \<open>OFFSET $k\<close> exactly when an offset is defined and \<open>LIMIT $k\<close> exactly when a limit is
  defined, each of the two binding its number (zero included) as one more parameter.
\<close>

theorem search_clauses:
  "(list_all supported (or_empty (spec_where spec)) \<longrightarrow>
      (\<exists>st. searchQuery table spec = Inr st)) \<and>
   (\<forall>st. searchQuery table spec = Inr st \<longrightarrow>
     (\<exists>fs. predicates_map (or_empty (spec_where spec)) new_Parameters =
                 Inr (fs, \<lparr>parameters = concat (map predicate_values (or_empty (spec_where spec)))\<rparr>) \<and>
          (let bound = concat (map predicate_values (or_empty (spec_where spec)));
               m = length bound
           in query st =
                ''SELECT * FROM '' @ table @
                (if or_empty (spec_where spec) = [] then []
                 else '' WHERE '' @ joinU '' AND '' fs) @
                (if or_empty (spec_order spec) = [] then []
                 else '' ORDER BY '' @
                      join '', '' (map (\<lambda>o'. column o' @ '' '' @ direction_toUpperCase (direction o'))
                                     (or_empty (spec_order spec)))) @
                (case spec_offset spec of None \<Rightarrow> []
                 | Some off \<Rightarrow> '' OFFSET $'' @ string_of_nat (Suc m)) @
                (case spec_limit spec of None \<Rightarrow> []
                 | Some lim \<Rightarrow> '' LIMIT $'' @
                     string_of_nat (case spec_offset spec of None \<Rightarrow> Suc m | Some off \<Rightarrow> Suc (Suc m))) \<and>
              params st =
                bound @
                (case spec_offset spec of None \<Rightarrow> [] | Some off \<Rightarrow> [JNum off]) @
                (case spec_limit spec of None \<Rightarrow> [] | Some lim \<Rightarrow> [JNum lim]))))"
  using searchQuery_total [of spec table] searchQuery_shape [of table spec] by blast

theorem search_clauses_witness:
  "searchQuery ''table''
     \<lparr>spec_where = Some [Equals ''id'' (JStr ''id'')], spec_order = Some [],
      spec_offset = Some 0, spec_limit = Some 0\<rparr> =
     Inr \<lparr>query = ''SELECT * FROM table WHERE id = $1 OFFSET $2 LIMIT $3'',
          params = [JStr ''id'', JNum 0, JNum 0]\<rparr> \<and>
   (\<exists>fs. predicates_map [Equals ''id'' (JStr ''id'')] new_Parameters =
            Inr (fs, \<lparr>parameters = [JStr ''id'']\<rparr>) \<and>
         ''SELECT * FROM table WHERE id = $1 OFFSET $2 LIMIT $3'' =
         ''SELECT * FROM table'' @ ('' WHERE '' @ joinU '' AND '' fs) @ [] @
         '' OFFSET $2'' @ '' LIMIT $3'')"
proof -
  let ?spec = "\<lparr>spec_where = Some [Equals ''id'' (JStr ''id'')], spec_order = Some [],
      spec_offset = Some 0, spec_limit = Some 0\<rparr>"
  let ?st = "\<lparr>query = ''SELECT * FROM table WHERE id = $1 OFFSET $2 LIMIT $3'',
          params = [JStr ''id'', JNum 0, JNum 0]\<rparr>"
  have n: "string_of_nat (Suc 0) = ''1''" "string_of_nat (Suc (Suc 0)) = ''2''"
    "string_of_nat (Suc (Suc (Suc 0))) = ''3''"
    by (simp_all add: string_of_nat.simps digit_char_def)
  have s: "searchQuery ''table'' ?spec = Inr ?st"
    by (simp add: searchQuery_def new_Parameters_def param_eq add_where_def joinU_def text_of_def n)
  from search_clauses [of ?spec "''table''"] s
  have "\<exists>fs. predicates_map (or_empty (spec_where ?spec)) new_Parameters =
            Inr (fs, \<lparr>parameters = concat (map predicate_values (or_empty (spec_where ?spec)))\<rparr>) \<and>
     (let bound = concat (map predicate_values (or_empty (spec_where ?spec)));
          m = length bound
      in query ?st =
           ''SELECT * FROM '' @ ''table'' @
           (if or_empty (spec_where ?spec) = [] then []
            else '' WHERE '' @ joinU '' AND '' fs) @
           (if or_empty (spec_order ?spec) = [] then []
            else '' ORDER BY '' @
                 join '', '' (map (\<lambda>o'. column o' @ '' '' @ direction_toUpperCase (direction o'))
                                (or_empty (spec_order ?spec)))) @
           (case spec_offset ?spec of None \<Rightarrow> []
            | Some off \<Rightarrow> '' OFFSET $'' @ string_of_nat (Suc m)) @
           (case spec_limit ?spec of None \<Rightarrow> []
            | Some lim \<Rightarrow> '' LIMIT $'' @
                string_of_nat (case spec_offset ?spec of None \<Rightarrow> Suc m | Some off \<Rightarrow> Suc (Suc m))) \<and>
         params ?st =
           bound @
           (case spec_offset ?spec of None \<Rightarrow> [] | Some off \<Rightarrow> [JNum off]) @
           (case spec_limit ?spec of None \<Rightarrow> [] | Some lim \<Rightarrow> [JNum lim]))"
    by blast
  with s show ?thesis
    by (simp add: n)
qed

section \<open>Writes and their notifications\<close>

text \<open>
  C9. For \<open>save\<close>, \<open>update\<close> and \<open>delete\<close>: when the connection provider's \<open>query\<close>
  succeeds, the notification (\<open>saved\<close> with the record, \<open>updated\<close> with the where list and
  the update map, \<open>deleted\<close> with the where list) is the last effect, after the execution,
  and the call succeeds; when it fails, the call fails with the same error and nothing is
  emitted. A statement that does not compile is neither executed nor notified.
\<close>

theorem notify_after_success:
  "(let st = saveQuery table record;
        fx = (if logger c then [Debug (query st) (Some (params st))] else []) @
             [Executed (query st) (Some (params st))]
    in (\<forall>r. pool c (query st) (Some (params st)) = Inr r \<longrightarrow>
            save c table record = (fx @ [EmittedSaved record], Inr ())) \<and>
       (\<forall>e. pool c (query st) (Some (params st)) = Inl e \<longrightarrow>
            save c table record = (fx, Inl e))) \<and>
   (\<forall>e. updateQuery localeCompare table w upd = Inl e \<longrightarrow>
        update localeCompare c table w upd = ([], Inl e)) \<and>
   (\<forall>st. updateQuery localeCompare table w upd = Inr st \<longrightarrow>
     (let fx = (if logger c then [Debug (query st) (Some (params st))] else []) @
               [Executed (query st) (Some (params st))]
      in (\<forall>r. pool c (query st) (Some (params st)) = Inr r \<longrightarrow>
              update localeCompare c table w upd = (fx @ [EmittedUpdated w upd], Inr ())) \<and>
         (\<forall>e. pool c (query st) (Some (params st)) = Inl e \<longrightarrow>
              update localeCompare c table w upd = (fx, Inl e)))) \<and>
   (\<forall>e. deleteQuery table w = Inl e \<longrightarrow> delete c table w = ([], Inl e)) \<and>
   (\<forall>st. deleteQuery table w = Inr st \<longrightarrow>
     (let fx = (if logger c then [Debug (query st) (Some (params st))] else []) @
               [Executed (query st) (Some (params st))]
      in (\<forall>r. pool c (query st) (Some (params st)) = Inr r \<longrightarrow>
              delete c table w = (fx @ [EmittedDeleted w], Inr ())) \<and>
         (\<forall>e. pool c (query st) (Some (params st)) = Inl e \<longrightarrow>
              delete c table w = (fx, Inl e))))"
  by (auto simp: save_def update_def delete_def client_query_def Let_def)

theorem notify_after_success_witness:
  "save \<lparr>pool = \<lambda>q ps. Inr \<lparr>rows = []\<rparr>, logger = False\<rparr> ''users'' [(''id'', JStr ''1'')] =
     ([Executed (query (saveQuery ''users'' [(''id'', JStr ''1'')])) (Some [JStr ''1'']),
       EmittedSaved [(''id'', JStr ''1'')]], Inr ()) \<and>
   save \<lparr>pool = \<lambda>q ps. Inl (Error ''connection refused''), logger = False\<rparr>
        ''users'' [(''id'', JStr ''1'')] =
     ([Executed (query (saveQuery ''users'' [(''id'', JStr ''1'')])) (Some [JStr ''1''])],
      Inl (Error ''connection refused'')) \<and>
   update codeUnitCompare \<lparr>pool = \<lambda>q ps. Inr \<lparr>rows = []\<rparr>, logger = True\<rparr> ''users''
        (Some [Equals ''id'' (JStr ''1'')]) [(''name'', JStr ''Bob'')] =
     ([Debug ''UPDATE users SET name = $2 WHERE id = $1'' (Some [JStr ''1'', JStr ''Bob'']),
       Executed ''UPDATE users SET name = $2 WHERE id = $1'' (Some [JStr ''1'', JStr ''Bob'']),
       EmittedUpdated (Some [Equals ''id'' (JStr ''1'')]) [(''name'', JStr ''Bob'')]], Inr ()) \<and>
   update codeUnitCompare \<lparr>pool = \<lambda>q ps. Inl (Error ''connection refused''), logger = False\<rparr>
        ''users'' (Some [Equals ''id'' (JStr ''1'')]) [(''name'', JStr ''Bob'')] =
     ([Executed ''UPDATE users SET name = $2 WHERE id = $1'' (Some [JStr ''1'', JStr ''Bob''])],
      Inl (Error ''connection refused'')) \<and>
   delete \<lparr>pool = \<lambda>q ps. Inr \<lparr>rows = []\<rparr>, logger = False\<rparr> ''users''
        (Some [Equals ''id'' (JStr ''1'')]) =
     ([Executed ''DELETE FROM users WHERE id = $1'' (Some [JStr ''1'']),
       EmittedDeleted (Some [Equals ''id'' (JStr ''1'')])], Inr ()) \<and>
   delete \<lparr>pool = \<lambda>q ps. Inl (Error ''connection refused''), logger = False\<rparr> ''users''
        (Some [Equals ''id'' (JStr ''1'')]) =
     ([Executed ''DELETE FROM users WHERE id = $1'' (Some [JStr ''1''])],
      Inl (Error ''connection refused'')) \<and>
   delete \<lparr>pool = \<lambda>q ps. Inr \<lparr>rows = []\<rparr>, logger = False\<rparr> ''users''
        (Some [Unsupported ''{}'']) =
     ([], Inl (Error ''Unsupported predicate: {}''))"
proof -
  let ?ok = "\<lparr>pool = \<lambda>q ps. Inr \<lparr>rows = []\<rparr>, logger = False\<rparr>"
  let ?okl = "\<lparr>pool = \<lambda>q ps. Inr \<lparr>rows = []\<rparr>, logger = True\<rparr>"
  let ?ko = "\<lparr>pool = \<lambda>q ps. Inl (Error ''connection refused''), logger = False\<rparr>"
  let ?w = "Some [Equals ''id'' (JStr ''1'')]"
  let ?rec = "[(''id'', JStr ''1'')]"
  let ?upd = "[(''name'', JStr ''Bob'')]"
  have n: "string_of_nat (Suc 0) = ''1''" "string_of_nat (Suc (Suc 0)) = ''2''"
    by (simp_all add: string_of_nat.simps digit_char_def)
  have d: "deleteQuery ''users'' ?w =
             Inr \<lparr>query = ''DELETE FROM users WHERE id = $1'', params = [JStr ''1'']\<rparr>"
    by (simp add: deleteQuery_def new_Parameters_def param_eq add_where_def joinU_def text_of_def n)
  have u: "deleteQuery ''users'' (Some [Unsupported ''{}'']) =
             Inl (Error ''Unsupported predicate: {}'')"
    by (simp add: deleteQuery_def)
  have p: "params (saveQuery ''users'' ?rec) = [JStr ''1'']"
    by (simp add: saveQuery_def params_map_eq new_Parameters_def)
  have q: "updateQuery codeUnitCompare ''users'' ?w ?upd =
             Inr \<lparr>query = ''UPDATE users SET name = $2 WHERE id = $1'',
                  params = [JStr ''1'', JStr ''Bob'']\<rparr>"
    by (simp add: updateQuery_def new_Parameters_def param_eq add_where_def joinU_def text_of_def n
          sort_by_def)
  show ?thesis
    using notify_after_success [of "''users''" ?rec ?ok codeUnitCompare ?w ?upd]
      notify_after_success [of "''users''" ?rec ?ko codeUnitCompare ?w ?upd]
      notify_after_success [of "''users''" ?rec ?okl codeUnitCompare ?w ?upd]
      notify_after_success [of "''users''" ?rec ?ok codeUnitCompare "Some [Unsupported ''{}'']" ?upd]
    by (simp add: d u p q Let_def)
qed

section \<open>Placeholder tokens of fragments\<close>

lemma ph_skip [simp]: "c \<noteq> CHR ''$'' \<Longrightarrow> placeholders (c # cs) = placeholders cs"
  by simp

declare placeholders.simps(2) [simp del]

lemma nd_simps: "nd []" "nd (c # cs) = (\<not> is_digit c)"
  by (simp_all add: nd_def)

lemma not_digit_simps:
  "\<not> is_digit (CHR '' '')" "\<not> is_digit (CHR '','')" "\<not> is_digit (CHR '')'')"
  by (simp_all add: is_digit_def)

lemmas ph_simps = ph_token ph_no_dollar_append nd_simps not_digit_simps

lemma ph_join_tokens:
  "nd r \<Longrightarrow>
   placeholders (join '', '' (map (\<lambda>i. CHR ''$'' # string_of_nat i) ks) @ r) =
     ks @ placeholders r"
proof (induction ks)
  case Nil
  then show ?case by simp
next
  case (Cons k ks)
  show ?case
  proof (cases ks)
    case Nil
    then show ?thesis using Cons.prems by (simp add: ph_simps)
  next
    case (Cons k' ks')
    then show ?thesis
      using Cons.IH Cons.prems by (simp add: ph_simps)
  qed
qed

lemma ph_join_ilike:
  assumes "nd r" "list_all no_dollar cols"
  shows "placeholders
           (join '' OR '' (map (\<lambda>col. col @ '' ILIKE '' @ CHR ''$'' # string_of_nat k) cols) @ r) =
         replicate (length cols) k @ placeholders r"
  using assms(2)
proof (induction cols)
  case Nil
  then show ?case by simp
next
  case (Cons c cs)
  then have c: "no_dollar c" and cs: "list_all no_dollar cs" by simp_all
  show ?case
  proof (cases cs)
    case Nil
    then show ?thesis using c assms(1) by (simp add: ph_simps)
  next
    case (Cons c' cs')
    then show ?thesis
      using Cons.IH [OF cs] c by (simp add: ph_simps)
  qed
qed

lemma applyPredicate_placeholders:
  assumes "applyPredicate x p = Inr (f, p')" "columns_ok x" "nd r"
  shows "placeholders (text_of f @ r) =
           predicate_placeholders x (length (parameters p)) @ placeholders r"
proof (cases x)
  case (Equals col v)
  with assms show ?thesis
    by (auto simp: columns_ok_def text_of_def param_eq ph_simps split: if_splits)
next
  case (In col vs)
  from In assms show ?thesis
    by (auto simp: columns_ok_def text_of_def params_map_eq ph_simps ph_join_tokens
             simp del: upt_Suc)
next
  case (NotIn col vs)
  from NotIn assms show ?thesis
    by (auto simp: columns_ok_def text_of_def params_map_eq ph_simps ph_join_tokens
             simp del: upt_Suc)
next
  case (ArrayContains col v)
  from ArrayContains assms show ?thesis
    by (auto simp: columns_ok_def text_of_def param_eq ph_simps)
next
  case (TextSearch cols v)
  have n: "nd ('')'' @ r)" by (simp add: nd_simps not_digit_simps)
  have c: "list_all no_dollar cols"
    using TextSearch assms(2) by (simp add: columns_ok_def)
  from TextSearch assms show ?thesis
    using ph_join_ilike [OF n c, of "Suc (length (parameters p))"]
      ph_join_ilike [OF assms(3) c, of "Suc (length (parameters p))"]
    by (cases cols; cases "tl cols") (auto simp: text_of_def param_eq Let_def)
next
  case (Unsupported json)
  with assms show ?thesis by simp
qed

lemma predicates_map_placeholders:
  assumes "predicates_map xs p = Inr (fs, p')" "list_all columns_ok xs" "nd r"
  shows "placeholders (joinU '' AND '' fs @ r) =
           predicates_placeholders xs (length (parameters p)) @ placeholders r"
  using assms(1,2)
proof (induction xs arbitrary: p fs)
  case Nil
  then show ?case by (simp add: joinU_def)
next
  case (Cons x xs)
  from Cons.prems(1) obtain f p1 fs' where
    a: "applyPredicate x p = Inr (f, p1)" and
    m: "predicates_map xs p1 = Inr (fs', p')" and
    fs: "fs = f # fs'"
    by (auto split: sum.splits prod.splits)
  from Cons.prems(2) have cx: "columns_ok x" and cxs: "list_all columns_ok xs"
    by simp_all
  have p1: "length (parameters p1) = length (parameters p) + length (predicate_values x)"
    using applyPredicate_binds [OF a] by simp
  note ih = Cons.IH [OF m cxs]
  show ?case
  proof (cases xs)
    case Nil
    with m have "fs' = []" by simp
    with fs Nil show ?thesis
      using applyPredicate_placeholders [OF a cx assms(3)] by (simp add: joinU_def)
  next
    case (Cons y ys)
    with m obtain g gs where gs: "fs' = g # gs"
      by (auto split: sum.splits prod.splits)
    let ?rest = "'' AND '' @ joinU '' AND '' fs' @ r"
    have n: "nd ?rest" by (simp add: nd_simps not_digit_simps)
    have "placeholders (joinU '' AND '' fs @ r) = placeholders (text_of f @ ?rest)"
      by (simp add: fs gs joinU_def)
    also have "\<dots> = predicate_placeholders x (length (parameters p)) @ placeholders ?rest"
      by (rule applyPredicate_placeholders [OF a cx n])
    also have "placeholders ?rest = placeholders (joinU '' AND '' fs' @ r)"
      by simp
    finally show ?thesis
      using ih by (simp add: p1)
  qed
qed

lemma predicate_placeholders_range:
  "k \<in> set (predicate_placeholders x n) \<Longrightarrow> n < k \<and> k \<le> n + length (predicate_values x)"
  by (cases x) (auto split: if_splits)

lemma predicate_placeholders_sorted: "sorted (predicate_placeholders x n)"
  by (cases x) (auto simp: sorted_replicate simp del: upt_Suc)

lemma predicates_placeholders_range:
  "k \<in> set (predicates_placeholders xs n) \<Longrightarrow>
   n < k \<and> k \<le> n + length (concat (map predicate_values xs))"
proof (induction xs arbitrary: n)
  case Nil
  then show ?case by simp
next
  case (Cons x xs)
  from Cons.prems consider
    (a) "k \<in> set (predicate_placeholders x n)" |
    (b) "k \<in> set (predicates_placeholders xs (n + length (predicate_values x)))"
    by auto
  then show ?case
  proof cases
    case a
    from predicate_placeholders_range [OF a] show ?thesis by simp
  next
    case b
    from Cons.IH [OF b] show ?thesis by simp
  qed
qed

lemma predicates_placeholders_sorted: "sorted (predicates_placeholders xs n)"
proof (induction xs arbitrary: n)
  case Nil
  show ?case by simp
next
  case (Cons x xs)
  have "a \<le> b"
    if "a \<in> set (predicate_placeholders x n)"
      and "b \<in> set (predicates_placeholders xs (n + length (predicate_values x)))" for a b
    using predicate_placeholders_range [OF that(1)] predicates_placeholders_range [OF that(2)]
    by simp
  then show ?case
    by (simp add: sorted_append predicate_placeholders_sorted Cons.IH)
qed

text \<open>
  C8 as stated fails: the fragment of a text search over two columns holds two placeholder
  tokens while one value is bound, and \<open>In\<close> with an empty list binds no value either.
\<close>

theorem tokens_exceed_binds_counterexample:
  "applyPredicate (TextSearch [''a'', ''b''] ''x'') new_Parameters =
     Inr (Some ''(a ILIKE $1 OR b ILIKE $1)'', \<lparr>parameters = [JStr ''%x%'']\<rparr>) \<and>
   placeholders ''(a ILIKE $1 OR b ILIKE $1)'' = [1, 1] \<and>
   length (placeholders ''(a ILIKE $1 OR b ILIKE $1)'') \<noteq>
     length (parameters \<lparr>parameters = [JStr ''%x%'']\<rparr>) - length (parameters new_Parameters) \<and>
   applyPredicate (In ''status'' []) new_Parameters = Inr (Some ''status IN ()'', new_Parameters)"
  by (simp add: new_Parameters_def param_eq string_of_nat.simps digit_char_def
        placeholders.simps(2) is_digit_def nat_of_digits_def)

text \<open>
  C8, amended. For every predicate whose column names hold no dollar sign and that compiles
  to a fragment: the number of distinct placeholders of the fragment is the number of values
  the compilation appended to the parameter list; the number of placeholder tokens is that
  number too, except for a text search, whose fragment holds one token per column, all of the
  one placeholder bound; no value is appended exactly for \<open>Equals\<close> with null and for \<open>In\<close>
  and \<open>NotIn\<close> with an empty list. The \<open>LIMIT 1\<close> of \<open>findOne\<close> is literal text: the
  statement's parameters are the values of its predicates.
\<close>

theorem predicate_tokens_and_binds:
  assumes "applyPredicate x p = Inr (Some f, p')" and "columns_ok x"
  shows "card (set (placeholders f)) = length (parameters p') - length (parameters p) \<and>
         length (placeholders f) =
           (case x of TextSearch cols v \<Rightarrow> length cols
            | _ \<Rightarrow> length (parameters p') - length (parameters p)) \<and>
         (length (parameters p') = length (parameters p) \<longleftrightarrow>
            (\<exists>col. x = Equals col JNull \<or> x = In col [] \<or> x = NotIn col [])) \<and>
         (\<forall>table w st. findOneQuery table w = Inr st \<longrightarrow>
            params st = concat (map predicate_values (or_empty w)) \<and>
            (\<exists>q. query st = q @ '' LIMIT 1''))"
proof -
  have ph: "placeholders f = predicate_placeholders x (length (parameters p))"
    using applyPredicate_placeholders [OF assms, of "[]"] by (simp add: text_of_def nd_simps)
  have ps: "parameters p' = parameters p @ predicate_values x"
    using applyPredicate_binds [OF assms(1)] by simp
  have ne: "cols \<noteq> []" if "x = TextSearch cols v" for cols v
    using assms(1) that by (auto simp: param_eq Let_def)
  have ns: "x \<noteq> Unsupported json" for json
    using assms(1) by auto
  have lim: "params st = concat (map predicate_values (or_empty w)) \<and>
             (\<exists>q. query st = q @ '' LIMIT 1'')"
    if "findOneQuery table w = Inr st" for table w st
  proof -
    from that obtain fs p0 where
      m: "predicates_map (or_empty w) new_Parameters = Inr (fs, p0)"
      by (auto simp: findOneQuery_def split: sum.splits prod.splits)
    from predicates_map_binds [OF m] that show ?thesis
      unfolding findOneQuery_def m by (auto simp: new_Parameters_def Let_def)
  qed
  have "card (set (placeholders f)) = length (parameters p') - length (parameters p) \<and>
         length (placeholders f) =
           (case x of TextSearch cols v \<Rightarrow> length cols
            | _ \<Rightarrow> length (parameters p') - length (parameters p)) \<and>
         (length (parameters p') = length (parameters p) \<longleftrightarrow>
            (\<exists>col. x = Equals col JNull \<or> x = In col [] \<or> x = NotIn col []))"
    unfolding ph ps using ne ns
    by (cases x) (auto simp del: upt_Suc)
  with lim show ?thesis by blast
qed

theorem predicate_tokens_and_binds_witness:
  "applyPredicate (In ''category'' [JStr ''news'', JStr ''blog'']) \<lparr>parameters = [JStr ''active'']\<rparr> =
     Inr (Some ''category IN ($2, $3)'',
          \<lparr>parameters = [JStr ''active'', JStr ''news'', JStr ''blog'']\<rparr>) \<and>
   columns_ok (In ''category'' [JStr ''news'', JStr ''blog'']) \<and>
   card (set (placeholders ''category IN ($2, $3)'')) = 2 \<and>
   length (placeholders ''category IN ($2, $3)'') = 2 \<and>
   applyPredicate (TextSearch [''a'', ''b''] ''x'') new_Parameters =
     Inr (Some ''(a ILIKE $1 OR b ILIKE $1)'', \<lparr>parameters = [JStr ''%x%'']\<rparr>) \<and>
   columns_ok (TextSearch [''a'', ''b''] ''x'') \<and>
   card (set (placeholders ''(a ILIKE $1 OR b ILIKE $1)'')) = 1 \<and>
   length (placeholders ''(a ILIKE $1 OR b ILIKE $1)'') = 2"
proof -
  have n: "string_of_nat (Suc 0) = ''1''" "string_of_nat (Suc (Suc 0)) = ''2''"
    "string_of_nat (Suc (Suc (Suc 0))) = ''3''"
    by (simp_all add: string_of_nat.simps digit_char_def)
  have a: "applyPredicate (In ''category'' [JStr ''news'', JStr ''blog''])
             \<lparr>parameters = [JStr ''active'']\<rparr> =
           Inr (Some ''category IN ($2, $3)'',
                \<lparr>parameters = [JStr ''active'', JStr ''news'', JStr ''blog'']\<rparr>)"
    by (simp add: param_eq n)
  have b: "applyPredicate (TextSearch [''a'', ''b''] ''x'') new_Parameters =
     Inr (Some ''(a ILIKE $1 OR b ILIKE $1)'', \<lparr>parameters = [JStr ''%x%'']\<rparr>)"
    by (simp add: param_eq n new_Parameters_def)
  have ca: "columns_ok (In ''category'' [JStr ''news'', JStr ''blog''])"
    by (simp add: columns_ok_def no_dollar_def)
  have cb: "columns_ok (TextSearch [''a'', ''b''] ''x'')"
    by (simp add: columns_ok_def no_dollar_def)
  from predicate_tokens_and_binds [OF a ca] predicate_tokens_and_binds [OF b cb] a b ca cb
  show ?thesis
    by (simp add: new_Parameters_def)
qed

section \<open>Placeholder tokens of statements\<close>

lemma no_dollar_simps [simp]:
  "no_dollar []" "no_dollar (c # cs) = (c \<noteq> CHR ''$'' \<and> no_dollar cs)"
  "no_dollar (a @ b) = (no_dollar a \<and> no_dollar b)"
  by (auto simp: no_dollar_def)

lemma no_dollar_join:
  "no_dollar sep \<Longrightarrow> list_all no_dollar xs \<Longrightarrow> no_dollar (join sep xs)"
  by (induction sep xs rule: join.induct) simp_all

lemma add_where_eq:
  "add_where fs q = q @ (if fs = [] then [] else '' WHERE '' @ joinU '' AND '' fs)"
  by (simp add: add_where_def)

lemma where_placeholders:
  assumes "predicates_map xs new_Parameters = Inr (fs, p')" "list_all columns_ok xs" "nd r"
  shows "placeholders ((if fs = [] then [] else '' WHERE '' @ joinU '' AND '' fs) @ r) =
           predicates_placeholders xs 0 @ placeholders r"
proof (cases "fs = []")
  case True
  with predicates_map_binds [OF assms(1)] show ?thesis by simp
next
  case False
  then show ?thesis
    using predicates_map_placeholders [OF assms] by (simp add: new_Parameters_def)
qed

lemma predicates_tokens_ok:
  assumes "placeholders q = predicates_placeholders xs 0"
    and "ps = concat (map predicate_values xs)"
  shows "tokens_in_bind_order \<lparr>query = q, params = ps\<rparr>"
proof -
  have "\<forall>k \<in> set (predicates_placeholders xs 0).
          1 \<le> k \<and> k \<le> length (concat (map predicate_values xs))"
    using predicates_placeholders_range [of _ xs 0] by fastforce
  then show ?thesis
    using predicates_placeholders_sorted [of xs 0]
    by (simp add: tokens_in_bind_order_def tokens_bound_def assms list_all_iff)
qed

lemma findOneQuery_tokens:
  assumes "findOneQuery table w = Inr st" "no_dollar table" "list_all columns_ok (or_empty w)"
  shows "tokens_in_bind_order st"
proof -
  from assms(1) obtain fs p0 where
    m: "predicates_map (or_empty w) new_Parameters = Inr (fs, p0)"
    by (auto simp: findOneQuery_def split: sum.splits prod.splits)
  have n: "nd '' LIMIT 1''" by (simp add: nd_simps not_digit_simps)
  from assms(1) have st: "st = \<lparr>query = ''SELECT * FROM '' @ table @
      (if fs = [] then [] else '' WHERE '' @ joinU '' AND '' fs) @ '' LIMIT 1'',
      params = concat (map predicate_values (or_empty w))\<rparr>"
    using predicates_map_binds [OF m]
    unfolding findOneQuery_def m by (auto simp: add_where_eq new_Parameters_def Let_def)
  have "placeholders (query st) = predicates_placeholders (or_empty w) 0"
    unfolding st using where_placeholders [OF m assms(3) n] assms(2)
    by (simp add: ph_no_dollar_append)
  then show ?thesis
    unfolding st by (intro predicates_tokens_ok) simp_all
qed

lemma countQuery_tokens:
  assumes "countQuery table xs = Inr st" "no_dollar table" "list_all columns_ok xs"
  shows "tokens_in_bind_order st"
proof -
  from assms(1) obtain fs p0 where
    m: "predicates_map xs new_Parameters = Inr (fs, p0)"
    by (auto simp: countQuery_def split: sum.splits prod.splits)
  from assms(1) have st: "st = \<lparr>query = ''SELECT COUNT(*) AS cnt FROM '' @ table @
      (if fs = [] then [] else '' WHERE '' @ joinU '' AND '' fs) @ [],
      params = concat (map predicate_values xs)\<rparr>"
    using predicates_map_binds [OF m]
    unfolding countQuery_def m by (auto simp: add_where_eq new_Parameters_def)
  have "placeholders (query st) = predicates_placeholders xs 0"
    unfolding st using where_placeholders [OF m assms(3), of "[]"] assms(2)
    by (simp add: ph_no_dollar_append nd_simps)
  then show ?thesis
    unfolding st by (intro predicates_tokens_ok) simp_all
qed

lemma deleteQuery_tokens:
  assumes "deleteQuery table w = Inr st" "no_dollar table" "list_all columns_ok (or_empty w)"
  shows "tokens_in_bind_order st"
proof -
  from assms(1) obtain fs p0 where
    m: "predicates_map (or_empty w) new_Parameters = Inr (fs, p0)"
    by (auto simp: deleteQuery_def split: sum.splits prod.splits)
  from assms(1) have st: "st = \<lparr>query = ''DELETE FROM '' @ table @
      (if fs = [] then [] else '' WHERE '' @ joinU '' AND '' fs) @ [],
      params = concat (map predicate_values (or_empty w))\<rparr>"
    using predicates_map_binds [OF m]
    unfolding deleteQuery_def m by (auto simp: add_where_eq new_Parameters_def)
  have "placeholders (query st) = predicates_placeholders (or_empty w) 0"
    unfolding st using where_placeholders [OF m assms(3), of "[]"] assms(2)
    by (simp add: ph_no_dollar_append nd_simps)
  then show ?thesis
    unfolding st by (intro predicates_tokens_ok) simp_all
qed

lemma no_dollar_direction [simp]: "no_dollar (direction_toUpperCase d)"
  by (cases d) simp_all

lemma searchQuery_placeholders:
  assumes "searchQuery table spec = Inr st" "no_dollar table"
    "list_all columns_ok (or_empty (spec_where spec))"
    "list_all (\<lambda>o'. no_dollar (column o')) (or_empty (spec_order spec))"
  shows "placeholders (query st) =
           predicates_placeholders (or_empty (spec_where spec)) 0 @
           (let m = length (concat (map predicate_values (or_empty (spec_where spec))))
            in (case spec_offset spec of None \<Rightarrow> [] | Some off \<Rightarrow> [Suc m]) @
               (case spec_limit spec of None \<Rightarrow> []
                | Some lim \<Rightarrow> [case spec_offset spec of None \<Rightarrow> Suc m | Some off \<Rightarrow> Suc (Suc m)]))"
proof -
  let ?ws = "or_empty (spec_where spec)"
  let ?m = "length (concat (map predicate_values ?ws))"
  let ?O = "if or_empty (spec_order spec) = [] then []
            else '' ORDER BY '' @
                 join '', '' (map (\<lambda>o'. column o' @ '' '' @ direction_toUpperCase (direction o'))
                                (or_empty (spec_order spec)))"
  let ?F = "case spec_offset spec of None \<Rightarrow> []
            | Some off \<Rightarrow> '' OFFSET $'' @ string_of_nat (Suc ?m)"
  let ?L = "case spec_limit spec of None \<Rightarrow> []
            | Some lim \<Rightarrow> '' LIMIT $'' @
                string_of_nat (case spec_offset spec of None \<Rightarrow> Suc ?m | Some off \<Rightarrow> Suc (Suc ?m))"
  from searchQuery_shape [OF assms(1)] obtain fs where
    m: "predicates_map ?ws new_Parameters = Inr (fs, \<lparr>parameters = concat (map predicate_values ?ws)\<rparr>)"
    and q: "query st = ''SELECT * FROM '' @ table @
              (if ?ws = [] then [] else '' WHERE '' @ joinU '' AND '' fs) @ ?O @ ?F @ ?L"
    by (auto simp: Let_def)
  have e: "(fs = []) = (?ws = [])"
    using predicates_map_binds [OF m] by (metis length_0_conv)
  have L: "nd ?L" "placeholders ?L = (case spec_limit spec of None \<Rightarrow> []
                | Some lim \<Rightarrow> [case spec_offset spec of None \<Rightarrow> Suc ?m | Some off \<Rightarrow> Suc (Suc ?m)])"
    using ph_token [of "[]"] by (auto simp: nd_simps not_digit_simps split: option.splits)
  have F: "nd (?F @ ?L)" "placeholders (?F @ ?L) =
             (case spec_offset spec of None \<Rightarrow> [] | Some off \<Rightarrow> [Suc ?m]) @ placeholders ?L"
    using L(1) ph_token [OF L(1)] by (auto simp: nd_simps not_digit_simps split: option.splits)
  have "no_dollar ?O"
    using assms(4) by (auto intro!: no_dollar_join simp: list_all_iff)
  then have O: "placeholders (?O @ ?F @ ?L) = placeholders (?F @ ?L)"
    by (rule ph_no_dollar_append)
  have On: "nd (?O @ ?F @ ?L)"
    using F(1) by (auto simp: nd_simps not_digit_simps)
  have "placeholders (query st) = placeholders ((if fs = [] then [] else '' WHERE '' @ joinU '' AND '' fs) @ ?O @ ?F @ ?L)"
    unfolding q e using assms(2) by (simp add: ph_no_dollar_append)
  also have "\<dots> = predicates_placeholders ?ws 0 @ placeholders (?O @ ?F @ ?L)"
    by (rule where_placeholders [OF m assms(3) On])
  finally show ?thesis
    unfolding O F(2) L(2) by (simp add: Let_def)
qed

lemma searchQuery_tokens:
  assumes "searchQuery table spec = Inr st" "no_dollar table"
    "list_all columns_ok (or_empty (spec_where spec))"
    "list_all (\<lambda>o'. no_dollar (column o')) (or_empty (spec_order spec))"
  shows "tokens_in_bind_order st"
proof -
  let ?ws = "or_empty (spec_where spec)"
  let ?P = "predicates_placeholders ?ws 0"
  let ?m = "length (concat (map predicate_values ?ws))"
  have r: "\<forall>k \<in> set ?P. 1 \<le> k \<and> k \<le> ?m"
    using predicates_placeholders_range [of _ ?ws 0] by fastforce
  have s: "sorted ?P" by (rule predicates_placeholders_sorted)
  from searchQuery_shape [OF assms(1)] have
    ps: "params st = concat (map predicate_values ?ws) @
           (case spec_offset spec of None \<Rightarrow> [] | Some off \<Rightarrow> [JNum off]) @
           (case spec_limit spec of None \<Rightarrow> [] | Some lim \<Rightarrow> [JNum lim])"
    by (auto simp: Let_def)
  show ?thesis
    unfolding tokens_in_bind_order_def tokens_bound_def
      searchQuery_placeholders [OF assms] ps
    using r s
    by (auto simp: Let_def list_all_iff sorted_append split: option.splits)
qed

lemma saveQuery_placeholders:
  assumes "no_dollar table" "list_all (\<lambda>e. no_dollar (fst e)) record"
  shows "placeholders (query (saveQuery table record)) = [1 ..< Suc (length record)]"
proof -
  let ?tail = "'')'' @ [CHR 0x0A] @ ''      ON CONFLICT (id) DO UPDATE SET '' @
              join '', '' (map (\<lambda>col. col @ '' = EXCLUDED.'' @ col) (map fst record))"
  have c: "no_dollar (join '', '' (map fst record))"
    using assms(2) by (auto intro!: no_dollar_join simp: list_all_iff)
  have t: "no_dollar ?tail"
    using assms(2) by (auto intro!: no_dollar_join simp: list_all_iff)
  have n: "nd ?tail" by (simp add: nd_simps not_digit_simps)
  have "placeholders (query (saveQuery table record)) =
          placeholders (join '', '' (map (\<lambda>i. ''$'' @ string_of_nat i) [1 ..< Suc (length record)]) @ ?tail)"
    unfolding saveQuery_eq using assms(1) c
    by (simp add: ph_no_dollar_append del: upt_Suc)
  also have "\<dots> = [1 ..< Suc (length record)] @ placeholders ?tail"
    using ph_join_tokens [OF n] by simp
  finally show ?thesis
    using ph_no_dollar [OF t] by simp
qed

lemma saveQuery_tokens:
  assumes "no_dollar table" "list_all (\<lambda>e. no_dollar (fst e)) record"
  shows "tokens_in_bind_order (saveQuery table record)"
  unfolding tokens_in_bind_order_def tokens_bound_def saveQuery_placeholders [OF assms]
  by (simp add: saveQuery_eq list_all_iff del: upt_Suc)

lemma set_insort_by [simp]: "set (insort_by cmp x xs) = insert x (set xs)"
  by (induction xs) auto

lemma length_insort_by [simp]: "length (insort_by cmp x xs) = Suc (length xs)"
  by (induction xs) auto

lemma set_sort_by [simp]: "set (sort_by cmp xs) = set xs"
  by (induction xs) (simp_all add: sort_by_def)

lemma length_sort_by [simp]: "length (sort_by cmp xs) = length xs"
  by (induction xs) (simp_all add: sort_by_def)

lemma set_entries_eq:
  "set_entries es p =
     (map (\<lambda>(k, e). fst e @ '' = $'' @ string_of_nat k)
        (zip [Suc (length (parameters p)) ..< Suc (length (parameters p) + length es)] es),
      \<lparr>parameters = parameters p @ map snd es\<rparr>)"
proof (induction es arbitrary: p)
  case Nil
  show ?case by simp
next
  case (Cons e es)
  obtain c v where e: "e = (c, v)" by (cases e)
  show ?case
    unfolding e by (simp add: param_eq Cons.IH upt_conv_Cons del: upt_Suc)
qed

lemma ph_join_sets_gen:
  assumes "nd r"
  shows "list_all (\<lambda>ke. no_dollar (fst (snd ke))) kes \<Longrightarrow>
     placeholders (join '', '' (map (\<lambda>(k, e). fst e @ '' = $'' @ string_of_nat k) kes) @ r) =
       map fst kes @ placeholders r"
proof (induction kes)
  case Nil
  show ?case by simp
next
  case (Cons ke kes)
  then have c: "no_dollar (fst (snd ke))"
    and cs: "list_all (\<lambda>ke. no_dollar (fst (snd ke))) kes"
    by simp_all
  obtain k e where ke: "ke = (k, e)" by (cases ke)
  show ?case
  proof (cases kes)
    case Nil
    then show ?thesis using c assms by (simp add: ke ph_simps)
  next
    case (Cons ke' kes')
    then show ?thesis
      using Cons.IH [OF cs] c by (simp add: ke ph_simps)
  qed
qed

lemma ph_join_sets:
  assumes "nd r" "list_all (\<lambda>e. no_dollar (fst e)) es"
  shows "placeholders (join '', '' (map (\<lambda>(k, e). fst e @ '' = $'' @ string_of_nat k)
                                  (zip [Suc n ..< Suc (n + length es)] es)) @ r) =
       [Suc n ..< Suc (n + length es)] @ placeholders r"
proof -
  let ?kes = "zip [Suc n ..< Suc (n + length es)] es"
  have "list_all (\<lambda>ke. no_dollar (fst (snd ke))) ?kes"
    using assms(2) by (fastforce simp: list_all_iff simp del: upt_Suc dest: set_zip_rightD)
  from ph_join_sets_gen [OF assms(1) this] show ?thesis
    by (simp del: upt_Suc)
qed

lemma updateQuery_shape:
  assumes "updateQuery cmp table w upd = Inr st"
  shows "\<exists>fs. predicates_map (or_empty w) new_Parameters =
            Inr (fs, \<lparr>parameters = concat (map predicate_values (or_empty w))\<rparr>) \<and>
     (let es = sort_by (\<lambda>a b. cmp (fst a) (fst b)) upd;
          m = length (concat (map predicate_values (or_empty w)))
      in query st =
           ''UPDATE '' @ table @ '' SET '' @
           join '', '' (map (\<lambda>(k, e). fst e @ '' = $'' @ string_of_nat k)
                          (zip [Suc m ..< Suc (m + length upd)] es)) @
           (if or_empty w = [] then [] else '' WHERE '' @ joinU '' AND '' fs) \<and>
         params st = concat (map predicate_values (or_empty w)) @ map snd es)"
proof -
  from assms obtain fs p0 where
    m: "predicates_map (or_empty w) new_Parameters = Inr (fs, p0)"
    by (auto simp: updateQuery_def split: sum.splits prod.splits)
  from predicates_map_binds [OF m] have
    p0: "p0 = \<lparr>parameters = concat (map predicate_values (or_empty w))\<rparr>"
    and len: "length fs = length (or_empty w)"
    by (simp_all add: new_Parameters_def)
  have e: "(fs = []) = (or_empty w = [])"
    using len by (metis length_0_conv)
  from assms m show ?thesis
    unfolding updateQuery_def m p0
    by (auto simp: set_entries_eq add_where_eq e Let_def)
qed

lemma updateQuery_placeholders:
  assumes "updateQuery cmp table w upd = Inr st" "no_dollar table"
    "list_all columns_ok (or_empty w)" "list_all (\<lambda>e. no_dollar (fst e)) upd"
  shows "placeholders (query st) =
           (let m = length (concat (map predicate_values (or_empty w)))
            in [Suc m ..< Suc (m + length upd)]) @
           predicates_placeholders (or_empty w) 0"
proof -
  let ?ws = "or_empty w"
  let ?m = "length (concat (map predicate_values ?ws))"
  let ?es = "sort_by (\<lambda>a b. cmp (fst a) (fst b)) upd"
  from updateQuery_shape [OF assms(1)] obtain fs where
    m: "predicates_map ?ws new_Parameters = Inr (fs, \<lparr>parameters = concat (map predicate_values ?ws)\<rparr>)"
    and q: "query st = ''UPDATE '' @ table @ '' SET '' @
           join '', '' (map (\<lambda>(k, e). fst e @ '' = $'' @ string_of_nat k)
                          (zip [Suc ?m ..< Suc (?m + length ?es)] ?es)) @
           (if ?ws = [] then [] else '' WHERE '' @ joinU '' AND '' fs) @ []"
    by (auto simp: Let_def)
  have e: "(fs = []) = (?ws = [])"
    using predicates_map_binds [OF m] by (metis length_0_conv)
  let ?W = "(if fs = [] then [] else '' WHERE '' @ joinU '' AND '' fs) @ []"
  have n: "nd ?W" by (simp add: nd_simps not_digit_simps)
  have c: "list_all (\<lambda>e. no_dollar (fst e)) ?es"
    using assms(4) by (simp add: list_all_iff)
  have "placeholders (query st) =
          placeholders (join '', '' (map (\<lambda>(k, e). fst e @ '' = $'' @ string_of_nat k)
                          (zip [Suc ?m ..< Suc (?m + length ?es)] ?es)) @ ?W)"
    unfolding q e using assms(2) by (simp add: ph_no_dollar_append del: upt_Suc)
  also have "\<dots> = [Suc ?m ..< Suc (?m + length ?es)] @ placeholders ?W"
    by (rule ph_join_sets [OF n c])
  also have "placeholders ?W = predicates_placeholders ?ws 0 @ placeholders []"
    by (rule where_placeholders [OF m assms(3)]) (simp add: nd_simps)
  finally show ?thesis by (simp add: Let_def del: upt_Suc)
qed

lemma updateQuery_tokens:
  assumes "updateQuery cmp table w upd = Inr st" "no_dollar table"
    "list_all columns_ok (or_empty w)" "list_all (\<lambda>e. no_dollar (fst e)) upd"
  shows "tokens_bound st"
    and "upd = [] \<or> predicates_placeholders (or_empty w) 0 = [] \<Longrightarrow> tokens_in_bind_order st"
proof -
  let ?ws = "or_empty w"
  let ?P = "predicates_placeholders ?ws 0"
  let ?m = "length (concat (map predicate_values ?ws))"
  have r: "\<forall>k \<in> set ?P. 1 \<le> k \<and> k \<le> ?m"
    using predicates_placeholders_range [of _ ?ws 0] by fastforce
  have s: "sorted ?P" by (rule predicates_placeholders_sorted)
  from updateQuery_shape [OF assms(1)] have
    ps: "length (params st) = ?m + length upd"
    by (auto simp: Let_def)
  show b: "tokens_bound st"
    unfolding tokens_bound_def updateQuery_placeholders [OF assms] ps
    using r by (auto simp: Let_def list_all_iff simp del: upt_Suc)
  show "tokens_in_bind_order st" if "upd = [] \<or> ?P = []"
    unfolding tokens_in_bind_order_def updateQuery_placeholders [OF assms]
    using b s that by (auto simp: Let_def simp del: upt_Suc)
qed

lemma codeUnitCompare_b_a: "codeUnitCompare ''b'' ''a'' = 1" "codeUnitCompare ''a'' ''b'' = - 1"
  by (simp_all add: codeUnitCompare_def less_char_def)

text \<open>
  C1 as stated fails for \<open>update\<close>: the predicates are compiled, and bound, before the
  entries of the update map, but the SET clause stands before the WHERE clause in the text.
\<close>

theorem update_tokens_counterexample:
  "updateQuery codeUnitCompare ''t'' (Some [Equals ''id'' (JNum 1)]) [(''a'', JNum 2)] =
     Inr \<lparr>query = ''UPDATE t SET a = $2 WHERE id = $1'', params = [JNum 1, JNum 2]\<rparr> \<and>
   placeholders ''UPDATE t SET a = $2 WHERE id = $1'' = [2, 1] \<and>
   \<not> sorted (placeholders ''UPDATE t SET a = $2 WHERE id = $1'') \<and>
   \<not> tokens_in_bind_order
        \<lparr>query = ''UPDATE t SET a = $2 WHERE id = $1'', params = [JNum 1, JNum 2]\<rparr>"
proof -
  have n: "string_of_nat (Suc 0) = ''1''" "string_of_nat (Suc (Suc 0)) = ''2''"
    by (simp_all add: string_of_nat.simps digit_char_def)
  have u: "updateQuery codeUnitCompare ''t'' (Some [Equals ''id'' (JNum 1)]) [(''a'', JNum 2)] =
     Inr \<lparr>query = ''UPDATE t SET a = $2 WHERE id = $1'', params = [JNum 1, JNum 2]\<rparr>"
    by (simp add: updateQuery_def new_Parameters_def param_eq add_where_def joinU_def
          text_of_def sort_by_def n)
  have p: "placeholders ''UPDATE t SET a = $2 WHERE id = $1'' = [2, 1]"
    by (simp add: placeholders.simps(2) is_digit_def nat_of_digits_def)
  have ns: "\<not> sorted (placeholders ''UPDATE t SET a = $2 WHERE id = $1'')"
    unfolding p by simp
  have "\<not> tokens_in_bind_order
        \<lparr>query = ''UPDATE t SET a = $2 WHERE id = $1'', params = [JNum 1, JNum 2]\<rparr>"
    unfolding tokens_in_bind_order_def Statement.simps using ns by blast
  with u p ns show ?thesis by blast
qed

text \<open>
  C1, amended. When the table name, the column names of the predicates, of the order list
  and of the record hold no dollar sign: in every statement of \<open>findOne\<close>, \<open>findById\<close>,
  \<open>search\<close>, \<open>count\<close>, \<open>delete\<close> and \<open>save\<close> every placeholder token names an entry of
  the parameter list and the tokens appear from left to right in bind order. In a statement
  of \<open>update\<close> every token names an entry of the parameter list; the tokens of the SET
  clause, bound last, come first in the text, followed by the tokens of the WHERE clause
  in bind order; so the tokens are in bind order when the update map is empty or the WHERE
  clause holds no token.
\<close>

theorem placeholders_follow_binds:
  assumes "no_dollar table" and "list_all columns_ok (or_empty w)"
    and "list_all (\<lambda>o'. no_dollar (column o')) (or_empty ord)"
    and "list_all (\<lambda>e. no_dollar (fst e)) record"
    and "list_all (\<lambda>e. no_dollar (fst e)) upd"
  shows "(\<forall>st. findOneQuery table w = Inr st \<longrightarrow> tokens_in_bind_order st) \<and>
    (\<forall>ident st. findByIdQuery table ident = Inr st \<longrightarrow> tokens_in_bind_order st) \<and>
    (\<forall>off lim st.
       searchQuery table \<lparr>spec_where = w, spec_order = ord, spec_offset = off, spec_limit = lim\<rparr> =
         Inr st \<longrightarrow> tokens_in_bind_order st) \<and>
    (\<forall>st. countQuery table (or_empty w) = Inr st \<longrightarrow> tokens_in_bind_order st) \<and>
    (\<forall>st. deleteQuery table w = Inr st \<longrightarrow> tokens_in_bind_order st) \<and>
    tokens_in_bind_order (saveQuery table record) \<and>
    (\<forall>cmp st. updateQuery cmp table w upd = Inr st \<longrightarrow>
       tokens_bound st \<and>
       placeholders (query st) =
         (let m = length (concat (map predicate_values (or_empty w)))
          in [Suc m ..< Suc (m + length upd)]) @
         predicates_placeholders (or_empty w) 0 \<and>
       sorted (predicates_placeholders (or_empty w) 0) \<and>
       (upd = [] \<or> predicates_placeholders (or_empty w) 0 = [] \<longrightarrow> tokens_in_bind_order st))"
proof (intro conjI allI impI)
  fix st assume "findOneQuery table w = Inr st"
  then show "tokens_in_bind_order st"
    using assms(1,2) by (rule findOneQuery_tokens)
next
  fix ident st assume "findByIdQuery table ident = Inr st"
  then show "tokens_in_bind_order st"
    unfolding findByIdQuery_def
    by (rule findOneQuery_tokens) (simp_all add: assms(1) columns_ok_def)
next
  fix off lim st
  assume "searchQuery table
            \<lparr>spec_where = w, spec_order = ord, spec_offset = off, spec_limit = lim\<rparr> = Inr st"
  then show "tokens_in_bind_order st"
    by (rule searchQuery_tokens) (simp_all add: assms)
next
  fix st assume "countQuery table (or_empty w) = Inr st"
  then show "tokens_in_bind_order st"
    using assms(1,2) by (rule countQuery_tokens)
next
  fix st assume "deleteQuery table w = Inr st"
  then show "tokens_in_bind_order st"
    using assms(1,2) by (rule deleteQuery_tokens)
next
  show "tokens_in_bind_order (saveQuery table record)"
    using assms(1,4) by (rule saveQuery_tokens)
next
  fix cmp st assume u: "updateQuery cmp table w upd = Inr st"
  show "tokens_bound st"
    using u assms(1,2,5) by (rule updateQuery_tokens(1))
  show "placeholders (query st) =
         (let m = length (concat (map predicate_values (or_empty w)))
          in [Suc m ..< Suc (m + length upd)]) @
         predicates_placeholders (or_empty w) 0"
    using u assms(1,2,5) by (rule updateQuery_placeholders)
  show "sorted (predicates_placeholders (or_empty w) 0)"
    by (rule predicates_placeholders_sorted)
  assume "upd = [] \<or> predicates_placeholders (or_empty w) 0 = []"
  with u assms(1,2,5) show "tokens_in_bind_order st"
    by (rule updateQuery_tokens(2))
qed

theorem placeholders_follow_binds_witness:
  "no_dollar ''t'' \<and>
   list_all columns_ok
     [Equals ''status'' (JStr ''active''), TextSearch [''name'', ''email''] ''john''] \<and>
   list_all (\<lambda>o'. no_dollar (column o')) [\<lparr>column = ''id'', direction = Asc\<rparr>] \<and>
   list_all (\<lambda>e. no_dollar (fst e)) [(''id'', JStr ''1''), (''name'', JStr ''Alice'')] \<and>
   list_all (\<lambda>e. no_dollar (fst e)) [(''b'', JNum 2), (''a'', JNum 1)] \<and>
   searchQuery ''t''
     \<lparr>spec_where = Some [Equals ''status'' (JStr ''active''),
                          TextSearch [''name'', ''email''] ''john''],
      spec_order = Some [\<lparr>column = ''id'', direction = Asc\<rparr>],
      spec_offset = Some 0, spec_limit = Some 10\<rparr> =
     Inr \<lparr>query = ''SELECT * FROM t WHERE status = $1 AND (name ILIKE $2 OR email ILIKE $2) ORDER BY id ASC OFFSET $3 LIMIT $4'',
          params = [JStr ''active'', JStr ''%john%'', JNum 0, JNum 10]\<rparr> \<and>
   tokens_in_bind_order
     \<lparr>query = ''SELECT * FROM t WHERE status = $1 AND (name ILIKE $2 OR email ILIKE $2) ORDER BY id ASC OFFSET $3 LIMIT $4'',
      params = [JStr ''active'', JStr ''%john%'', JNum 0, JNum 10]\<rparr> \<and>
   tokens_in_bind_order (saveQuery ''t'' [(''id'', JStr ''1''), (''name'', JStr ''Alice'')]) \<and>
   updateQuery codeUnitCompare ''t''
     (Some [Equals ''status'' (JStr ''active''), TextSearch [''name'', ''email''] ''john''])
     [(''b'', JNum 2), (''a'', JNum 1)] =
     Inr \<lparr>query = ''UPDATE t SET a = $3, b = $4 WHERE status = $1 AND (name ILIKE $2 OR email ILIKE $2)'',
          params = [JStr ''active'', JStr ''%john%'', JNum 1, JNum 2]\<rparr> \<and>
   tokens_bound
     \<lparr>query = ''UPDATE t SET a = $3, b = $4 WHERE status = $1 AND (name ILIKE $2 OR email ILIKE $2)'',
      params = [JStr ''active'', JStr ''%john%'', JNum 1, JNum 2]\<rparr>"
proof -
  let ?w = "Some [Equals ''status'' (JStr ''active''), TextSearch [''name'', ''email''] ''john'']"
  let ?ord = "Some [\<lparr>column = ''id'', direction = Asc\<rparr>]"
  let ?rec = "[(''id'', JStr ''1''), (''name'', JStr ''Alice'')]"
  let ?upd = "[(''b'', JNum 2), (''a'', JNum 1)]"
  let ?S = "\<lparr>query = ''SELECT * FROM t WHERE status = $1 AND (name ILIKE $2 OR email ILIKE $2) ORDER BY id ASC OFFSET $3 LIMIT $4'',
          params = [JStr ''active'', JStr ''%john%'', JNum 0, JNum 10]\<rparr>"
  let ?U = "\<lparr>query = ''UPDATE t SET a = $3, b = $4 WHERE status = $1 AND (name ILIKE $2 OR email ILIKE $2)'',
          params = [JStr ''active'', JStr ''%john%'', JNum 1, JNum 2]\<rparr>"
  have n: "string_of_nat (Suc 0) = ''1''" "string_of_nat (Suc (Suc 0)) = ''2''"
    "string_of_nat (Suc (Suc (Suc 0))) = ''3''" "string_of_nat (Suc (Suc (Suc (Suc 0)))) = ''4''"
    by (simp_all add: string_of_nat.simps digit_char_def)
  have h1: "no_dollar ''t''" by simp
  have h2: "list_all columns_ok (or_empty ?w)" by (simp add: columns_ok_def)
  have h3: "list_all (\<lambda>o'. no_dollar (column o')) (or_empty ?ord)" by simp
  have h4: "list_all (\<lambda>e. no_dollar (fst e)) ?rec" by simp
  have h5: "list_all (\<lambda>e. no_dollar (fst e)) ?upd" by simp
  have s: "searchQuery ''t'' \<lparr>spec_where = ?w, spec_order = ?ord,
             spec_offset = Some 0, spec_limit = Some 10\<rparr> = Inr ?S"
    by (simp add: searchQuery_def new_Parameters_def param_eq add_where_def joinU_def
          text_of_def n)
  have u: "updateQuery codeUnitCompare ''t'' ?w ?upd = Inr ?U"
    by (simp add: updateQuery_def new_Parameters_def param_eq add_where_def joinU_def
          text_of_def sort_by_def codeUnitCompare_b_a n)
  note t = placeholders_follow_binds [OF h1 h2 h3 h4 h5]
  from t s have "tokens_in_bind_order ?S" by blast
  moreover from t have "tokens_in_bind_order (saveQuery ''t'' ?rec)" by blast
  moreover from t u have "tokens_bound ?U" by blast
  ultimately show ?thesis
    using h1 h2 h3 h4 h5 s u by simp
qed

section \<open>The SET clause of an update\<close>

lemma mset_insort_by [simp]: "mset (insort_by cmp x xs) = add_mset x (mset xs)"
  by (induction xs) auto

lemma mset_sort_by [simp]: "mset (sort_by cmp xs) = mset xs"
  by (induction xs) (simp_all add: sort_by_def)






lemma underscore_code: "c = CHR ''_'' \<longleftrightarrow> (of_char c :: nat) = 95"
proof -
  have "(of_char (CHR ''_'') :: nat) = 95" by simp
  then show ?thesis by (metis of_char_eq_iff)
qed

lemma identifier_not_ignorable: "identifier_char c \<Longrightarrow> \<not> ignorable c"
  by (auto simp: identifier_char_def ignorable_def is_lower_def is_upper_def is_decimal_def
        underscore_code)

lemma weights_lower:
  "is_lower c \<Longrightarrow> primary c = (of_char c :: nat) - 86 \<and> tertiary c = 0 \<and> 11 \<le> primary c"
  by (auto simp: is_lower_def is_upper_def is_decimal_def primary_def tertiary_def
        underscore_code)



lemma weights_underscore: "primary CHR ''_'' = 0 \<and> tertiary CHR ''_'' = 0"
  by (simp add: primary_def tertiary_def is_upper_def)



lemma identifier_filter:
  "list_all identifier_char s \<Longrightarrow> filter (\<lambda>c. \<not> ignorable c) s = s"
  by (induction s) (simp_all add: identifier_not_ignorable)

lemma collation_key_identifier:
  "identifier_name s \<Longrightarrow> collation_key s = (map primary s, map tertiary s)"
  by (simp add: collation_key_def identifier_name_def identifier_filter)



lemma identifier_collated: "identifier_name s \<Longrightarrow> collated_name s"
  by (induction s) (simp_all add: identifier_name_def collated_name_def collated_def)

lemma snake_identifier: "snake_name s \<Longrightarrow> identifier_name s"
  by (induction s) (auto simp: identifier_name_def snake_name_def identifier_char_def)

lemma snake_char_weights:
  assumes "is_lower c \<or> c = CHR ''_''" "is_lower d \<or> d = CHR ''_''"
  shows "(primary c < primary d \<longleftrightarrow> c < d) \<and> (primary c = primary d \<longleftrightarrow> c = d) \<and>
         tertiary c = 0"
proof -
  define m n where "m = (of_char c :: nat)" and "n = (of_char d :: nat)"
  have c: "(primary c = m - 86 \<and> 97 \<le> m) \<or> (primary c = 0 \<and> m = 95)"
    unfolding m_def using assms(1) weights_lower [of c] weights_underscore
    by (auto simp: is_lower_def)
  have d: "(primary d = n - 86 \<and> 97 \<le> n) \<or> (primary d = 0 \<and> n = 95)"
    unfolding n_def using assms(2) weights_lower [of d] weights_underscore
    by (auto simp: is_lower_def)
  have e: "c = d \<longleftrightarrow> m = n"
    unfolding m_def n_def by simp
  have l: "c < d \<longleftrightarrow> m < n"
    unfolding m_def n_def by (rule less_char_def)
  have t: "tertiary c = 0"
    using assms(1) weights_lower [of c] weights_underscore by auto
  show ?thesis
    unfolding e l using c d t by arith
qed

lemma snake_primary_order:
  "snake_name a \<Longrightarrow> snake_name b \<Longrightarrow>
   (map primary a < map primary b \<longleftrightarrow> a < b) \<and> (map primary a = map primary b \<longleftrightarrow> a = b)"
proof (induction a arbitrary: b)
  case Nil
  then show ?case by (cases b) simp_all
next
  case (Cons c a)
  show ?case
  proof (cases b)
    case Nil
    then show ?thesis by simp
  next
    case b: (Cons d b')
    from Cons.prems b have w: "(primary c < primary d \<longleftrightarrow> c < d) \<and> (primary c = primary d \<longleftrightarrow> c = d)"
      using snake_char_weights [of c d] by (simp add: snake_name_def)
    from Cons.prems b have "snake_name a" "snake_name b'"
      by (simp_all add: snake_name_def)
    from Cons.IH [OF this] w show ?thesis
      unfolding b by simp
  qed
qed

lemma snake_tertiary: "snake_name s \<Longrightarrow> map tertiary s = replicate (length s) 0"
  by (induction s) (use snake_char_weights in \<open>auto simp: snake_name_def\<close>)

lemma snake_key_order:
  assumes "snake_name a" "snake_name b"
  shows "(collation_key a < collation_key b \<longleftrightarrow> a < b) \<and>
         (collation_key a \<le> collation_key b \<longleftrightarrow> a \<le> b)"
proof -
  note p = snake_primary_order [OF assms]
  have l: "length a = length b" if "a = b"
    using that by simp
  have k: "collation_key a = (map primary a, replicate (length a) 0)"
          "collation_key b = (map primary b, replicate (length b) 0)"
    using assms
    by (simp_all add: collation_key_identifier snake_identifier snake_tertiary)
  have lt: "collation_key a < collation_key b \<longleftrightarrow> a < b"
    unfolding k less_prod_def using p by auto
  have eq: "collation_key a = collation_key b \<longleftrightarrow> a = b"
    unfolding k using p by auto
  show ?thesis
    using lt eq by (auto simp: le_less)
qed




lemma rootCompare_snake:
  assumes "snake_name a" "snake_name b"
  shows "rootCompare a b = codeUnitCompare a b"
  using snake_key_order [OF assms] snake_key_order [OF assms(2,1)]
  by (simp add: rootCompare_def codeUnitCompare_def)


lemma key_examples:
  "collation_key ''user_id'' < collation_key ''userName''"
  "identifier_name ''user_id''" "identifier_name ''userName''"
  "identifier_name ''a''" "identifier_name ''b''"
  by (simp_all add: collation_key_def primary_def tertiary_def ignorable_def
        is_lower_def is_upper_def is_decimal_def less_prod_def identifier_name_def
        identifier_char_def)



text \<open>A comparison that ranks all names equal, and so never reorders, is not the host's.\<close>

lemma host_collation_not_constant: "\<not> host_collation (\<lambda>a b. 0)"
proof
  assume h: "host_collation (\<lambda>a b. 0)"
  have c: "collated_name ''user_id''" "collated_name ''userName''"
    using key_examples by (simp_all add: identifier_collated)
  from h c have "collation_key ''user_id'' = collation_key ''userName''"
    unfolding host_collation_def by blast
  with key_examples(1) show False
    by simp
qed





section \<open>The stub connection provider\<close>


lemma rtrim_Nil [simp]: "rtrim [] = []"
  by (simp add: rtrim_def)







lemma ws_words_dropWhile: "ws_words (dropWhile is_space s) = ws_words s"
  by (subst (1 2) ws_words.simps) simp

lemma ws_words_Nil [simp]: "ws_words [] = []"
  by (subst ws_words.simps) simp


















end
